theory Spec2Isabelle
  imports Complex_Main "HOL-Library.Word"
begin

section \<open>GPU-assisted ordering of CAD sectors by visible coverage\<close>

text \<open>
  A shallow embedding of \<^verbatim>\<open>OrderSectorsByVisibilityCoverage.ts\<close>, class
  \<^verbatim>\<open>GpuOrderSectorsByVisibilityCoverage\<close>.

  Conventions of the embedding.
  \<^item> JavaScript numbers that hold identifiers, counts and bytes are \<open>nat\<close>; numbers that
    hold weights, priorities, coordinates and coverage factors are \<open>real\<close>: the arithmetic
    of doubles is idealised, its rounding is not modelled.
  \<^item> A store into a \<^verbatim>\<open>Float32Array\<close> narrows the number to single precision: the
    elements of such an array are of type \<open>float32\<close>, and the store applies \<open>fround\<close>.
  \<^item> The \<^verbatim>\<open>Map\<close> of containers is an association list in insertion order, which is
    the order a JavaScript \<^verbatim>\<open>Map\<close> iterates in.
  \<^item> Objects that are shared (a proxy group is referenced by its container and by the
    scene) live in an explicit store and are named by a reference.
  \<^item> A JavaScript array with holes is a list of options; a write past the end extends
    it. A typed array has a fixed length; a write past its end is ignored.
  \<^item> An exception is a value \<open>Inl e\<close> of a sum type.
  \<^item> The picture the GPU draws is an input of the model: a function from the byte
    index of the read-back to the byte. What else three.js does while it renders (it
    recomputes the world matrices of the objects in the scene) is not part of the model.
\<close>

subsection \<open>Data\<close>

type_synonym vec3 = "real \<times> real \<times> real"

type_synonym Matrix4 = "real list"

record Box3 =
  box_min :: vec3
  box_max :: vec3

record CoverageFactors =
  xy :: real
  xz :: real
  yz :: real

text \<open>\<^verbatim>\<open>SectorMetadata\<close>: the fields the class reads. \<open>coverageFactors\<close> is
  \<^verbatim>\<open>sector.facesFile.coverageFactors\<close>.\<close>

record SectorMetadata =
  sector_id :: nat
  bounds :: Box3
  coverageFactors :: CoverageFactors

text \<open>\<^verbatim>\<open>CadModelMetadata\<close>; \<open>scene_getAllSectors\<close> is what
  \<^verbatim>\<open>model.scene.getAllSectors()\<close> returns.\<close>

record CadModelMetadata =
  blobUrl :: string
  modelMatrix :: Matrix4
  scene_getAllSectors :: "SectorMetadata list"

text \<open>A single-precision number, as an element of a \<^verbatim>\<open>Float32Array\<close>: a real that
  binary32 represents, or an infinity.\<close>

datatype float32 = Float32 real | Float32_PlusInfinity | Float32_MinusInfinity

type_synonym vec3f = "float32 \<times> float32 \<times> float32"

text \<open>The instanced mesh of boxes. Both arrays are \<^verbatim>\<open>Float32Array\<close>s.
  \<open>instanceMatrix\<close> holds, per instance, the translation and the scale of the matrix that
  \<^verbatim>\<open>setMatrixAt\<close> stored (with the identity rotation the other entries of the matrix
  are the constants 0 and 1); \<open>None\<close> is an instance never written, whose matrix is all
  zero. \<open>instanceValues\<close> is the interleaved array of sector id and three coverage
  factors.\<close>

record InstancedMesh =
  instance_count :: nat
  instanceMatrix :: "(vec3f \<times> vec3f) option list"
  instanceValues :: "float32 list"

text \<open>The \<^verbatim>\<open>THREE.Group\<close> holding the mesh.\<close>

record Object3D =
  matrix :: Matrix4
  matrixWorld :: Matrix4
  mesh :: InstancedMesh

type_synonym ref = nat

record SectorContainer =
  model :: CadModelMetadata
  sectors :: "SectorMetadata list"
  sectorIdOffset :: nat
  renderable :: ref

record SectorVisibility =
  sectorIdWithOffset :: nat
  weight :: real
  distance :: nat

record PrioritizedSectorIdentifier =
  entry_model :: CadModelMetadata
  sectorId :: nat
  priority :: real
  depth :: nat

text \<open>A renderer and the render target, reduced to what the class does with them:
  how often \<^verbatim>\<open>dispose()\<close> was called on each.\<close>

record WebGLRenderer =
  renderer_dispose_calls :: nat

record WebGLRenderTarget =
  width :: nat
  height :: nat
  target_dispose_calls :: nat

datatype error =
    OutOfRange nat
  | ModelNotFound string
  | DebugCanvasExists

record GpuOrderSectorsByVisibilityCoverage =
  this_sectorIdOffset :: nat
  scene :: "ref list"
  renderer :: WebGLRenderer
  debugRenderer :: "WebGLRenderer option"
  renderTarget :: WebGLRenderTarget
  containers :: "(string \<times> SectorContainer) list"
  rtBuffer :: "8 word list"
  sectorVisibilityBuffer :: "SectorVisibility option list"
  store :: "ref \<Rightarrow> Object3D option"
  next_ref :: ref

subsection \<open>Containers as a JavaScript Map\<close>

fun map_set :: "'k \<Rightarrow> 'v \<Rightarrow> ('k \<times> 'v) list \<Rightarrow> ('k \<times> 'v) list" where
  "map_set k v [] = [(k, v)]"
| "map_set k v ((k', v') # kvs) =
     (if k = k' then (k, v) # kvs else (k', v') # map_set k v kvs)"

definition map_delete :: "'k \<Rightarrow> ('k \<times> 'v) list \<Rightarrow> ('k \<times> 'v) list" where
  "map_delete k kvs = filter (\<lambda>kv. fst kv \<noteq> k) kvs"

subsection \<open>Arrays\<close>

text \<open>Reading a JavaScript array: a hole and an index past the end are both
  \<^verbatim>\<open>undefined\<close>.\<close>

definition array_get :: "'a option list \<Rightarrow> nat \<Rightarrow> 'a option" where
  "array_get xs i = (if i < length xs then xs ! i else None)"

definition array_set :: "'a option list \<Rightarrow> nat \<Rightarrow> 'a \<Rightarrow> 'a option list" where
  "array_set xs i v =
     (if i < length xs then xs[i := Some v]
      else xs @ replicate (i - length xs) None @ [Some v])"

text \<open>The elements \<^verbatim>\<open>reduce\<close> and \<^verbatim>\<open>filter\<close> visit: holes are skipped.\<close>

definition array_elements :: "'a option list \<Rightarrow> 'a list" where
  "array_elements xs = concat (map (\<lambda>e. case e of None \<Rightarrow> [] | Some v \<Rightarrow> [v]) xs)"

text \<open>Writing a typed array: out of range is ignored.\<close>

definition typed_set :: "'a list \<Rightarrow> nat \<Rightarrow> 'a \<Rightarrow> 'a list" where
  "typed_set xs i v = (if i < length xs then xs[i := v] else xs)"

subsection \<open>Single precision\<close>

text \<open>Rounding to the nearest integer, ties to the even one.\<close>

definition round_half_even :: "real \<Rightarrow> int" where
  "round_half_even q =
     (let f = \<lfloor>q\<rfloor>; d = q - of_int f
      in if d < 1 / 2 then f else if 1 / 2 < d then f + 1 else if even f then f else f + 1)"

text \<open>The binary exponent of a number in binary32: that of the number, and \<open>-126\<close> for
  the subnormal numbers.\<close>

definition float32_exponent :: "real \<Rightarrow> int" where
  "float32_exponent x = max \<lfloor>log 2 \<bar>x\<bar>\<rfloor> (- 126)"

text \<open>What a store into a \<^verbatim>\<open>Float32Array\<close> keeps of a number (\<^verbatim>\<open>Math.fround\<close>): the
  nearest multiple of the unit in the last of 24 significant bits, ties to even, and an
  infinity from \<open>2 ^ 128\<close> on.\<close>

definition fround :: "real \<Rightarrow> float32" where
  "fround x =
     (if x = 0 then Float32 0
      else let ulp = 2 powr of_int (float32_exponent x - 23);
               y = of_int (round_half_even (x / ulp)) * ulp
           in if 2 ^ 128 \<le> \<bar>y\<bar>
              then (if 0 < x then Float32_PlusInfinity else Float32_MinusInfinity)
              else Float32 y)"

definition fround3 :: "vec3 \<Rightarrow> vec3f" where
  "fround3 v = (case v of (x, y, z) \<Rightarrow> (fround x, fround y, fround z))"

subsection \<open>Construction and disposal\<close>

definition constructor :: "(nat \<times> nat) option \<Rightarrow> GpuOrderSectorsByVisibilityCoverage" where
  "constructor renderSize =
     (let (w, h) = (case renderSize of None \<Rightarrow> (640, 480) | Some sz \<Rightarrow> sz)
      in \<lparr> this_sectorIdOffset = 0,
           scene = [],
           renderer = \<lparr> renderer_dispose_calls = 0 \<rparr>,
           debugRenderer = None,
           renderTarget = \<lparr> width = w, height = h, target_dispose_calls = 0 \<rparr>,
           containers = [],
           rtBuffer = [],
           sectorVisibilityBuffer = [],
           store = (\<lambda>_. None),
           next_ref = 0 \<rparr>)"

definition renderer_dispose :: "WebGLRenderer \<Rightarrow> WebGLRenderer" where
  "renderer_dispose r = r\<lparr> renderer_dispose_calls := renderer_dispose_calls r + 1 \<rparr>"

definition dispose :: "GpuOrderSectorsByVisibilityCoverage \<Rightarrow> GpuOrderSectorsByVisibilityCoverage" where
  "dispose s =
     (let s1 = s\<lparr> renderer := renderer_dispose (renderer s) \<rparr>
      in case debugRenderer s1 of
           Some d \<Rightarrow> s1\<lparr> debugRenderer := Some (renderer_dispose d) \<rparr>
         | None \<Rightarrow> s1)"

definition createDebugCanvas ::
  "GpuOrderSectorsByVisibilityCoverage \<Rightarrow> error + GpuOrderSectorsByVisibilityCoverage" where
  "createDebugCanvas s =
     (case debugRenderer s of
        Some _ \<Rightarrow> Inl DebugCanvasExists
      | None \<Rightarrow> Inr (s\<lparr> debugRenderer := Some \<lparr> renderer_dispose_calls = 0 \<rparr> \<rparr>))"

subsection \<open>Building the proxy mesh of a model\<close>

text \<open>\<^verbatim>\<open>Box3.isEmpty\<close>, \<^verbatim>\<open>getCenter\<close> and \<^verbatim>\<open>getSize\<close> of three.js: centre and size of
  an empty box are the zero vector.\<close>

definition box_isEmpty :: "Box3 \<Rightarrow> bool" where
  "box_isEmpty b =
     (case (box_min b, box_max b) of
        ((x0, y0, z0), (x1, y1, z1)) \<Rightarrow> x1 < x0 \<or> y1 < y0 \<or> z1 < z0)"

definition box_center :: "Box3 \<Rightarrow> vec3" where
  "box_center b =
     (if box_isEmpty b then (0, 0, 0)
      else case (box_min b, box_max b) of
        ((x0, y0, z0), (x1, y1, z1)) \<Rightarrow> ((x0 + x1) * 0.5, (y0 + y1) * 0.5, (z0 + z1) * 0.5))"

definition box_size :: "Box3 \<Rightarrow> vec3" where
  "box_size b =
     (if box_isEmpty b then (0, 0, 0)
      else case (box_min b, box_max b) of
        ((x0, y0, z0), (x1, y1, z1)) \<Rightarrow> (x1 - x0, y1 - y0, z1 - z0))"

text \<open>The closure \<^verbatim>\<open>addSector(sectorBounds, sectorId, coverage)\<close>; \<open>coverage\<close> is the
  vector \<open>(x, y, z)\<close>. Every store goes into a \<^verbatim>\<open>Float32Array\<close>.\<close>

definition addSector :: "nat \<Rightarrow> Box3 \<Rightarrow> nat \<Rightarrow> vec3 \<Rightarrow> InstancedMesh \<Rightarrow> InstancedMesh" where
  "addSector sectorIdOffset' sectorBounds sectorId' coverage m =
     (case coverage of (cx, cy, cz) \<Rightarrow>
        m\<lparr> instanceMatrix :=
             typed_set (instanceMatrix m) sectorId'
               (Some (fround3 (box_center sectorBounds), fround3 (box_size sectorBounds))),
           instanceValues :=
             typed_set
               (typed_set
                 (typed_set
                   (typed_set (instanceValues m) (4 * sectorId' + 0)
                      (fround (real (sectorIdOffset' + sectorId'))))
                   (4 * sectorId' + 1) (fround cx))
                 (4 * sectorId' + 2) (fround cy))
               (4 * sectorId' + 3) (fround cz) \<rparr>)"

text \<open>The body of \<^verbatim>\<open>sectors.forEach\<close>: the coverage vector is set to
  \<open>(yz, xz, xy)\<close> and the sector is added under its own \<open>id\<close>.\<close>

definition forEach_sector :: "nat \<Rightarrow> InstancedMesh \<Rightarrow> SectorMetadata \<Rightarrow> InstancedMesh" where
  "forEach_sector sectorIdOffset' m sector =
     (let cf = coverageFactors sector
      in addSector sectorIdOffset' (bounds sector) (sector_id sector) (yz cf, xz cf, xy cf) m)"

text \<open>The group: \<^verbatim>\<open>applyMatrix4\<close> makes \<open>modelMatrix\<close> its local matrix;
  \<^verbatim>\<open>updateMatrixWorld()\<close>, called without force on a group that does not update its
  matrix automatically, leaves its world matrix the identity.\<close>

definition identity_matrix4 :: Matrix4 where
  "identity_matrix4 = [1, 0, 0, 0, 0, 1, 0, 0, 0, 0, 1, 0, 0, 0, 0, 1]"

definition createSectorTreeMesh :: "nat \<Rightarrow> SectorMetadata list \<Rightarrow> Matrix4 \<Rightarrow> Object3D" where
  "createSectorTreeMesh sectorIdOffset' sectors' modelMatrix' =
     (let sectorCount = length sectors';
          m0 = \<lparr> instance_count = sectorCount,
                 instanceMatrix = replicate sectorCount None,
                 instanceValues = replicate (4 * sectorCount) (Float32 0) \<rparr>
      in \<lparr> matrix = modelMatrix',
           matrixWorld = identity_matrix4,
           mesh = foldl (forEach_sector sectorIdOffset') m0 sectors' \<rparr>)"

subsection \<open>Registering, updating and removing models\<close>

definition addModel ::
  "CadModelMetadata \<Rightarrow> GpuOrderSectorsByVisibilityCoverage \<Rightarrow> GpuOrderSectorsByVisibilityCoverage" where
  "addModel model' s =
     (let sectors' = scene_getAllSectors model';
          obj = createSectorTreeMesh (this_sectorIdOffset s) sectors' (modelMatrix model');
          r = next_ref s
      in s\<lparr> store := (store s)(r \<mapsto> obj),
             next_ref := r + 1,
             containers :=
               map_set (blobUrl model')
                 \<lparr> model = model', sectors = sectors',
                   sectorIdOffset = this_sectorIdOffset s, renderable = r \<rparr>
                 (containers s),
             this_sectorIdOffset := this_sectorIdOffset s + length sectors',
             scene := scene s @ [r] \<rparr>)"

text \<open>\<^verbatim>\<open>matrix.copy(model.modelMatrix)\<close>, then \<^verbatim>\<open>updateMatrixWorld(true)\<close>: the
  group's parent is the scene, whose transform is the identity, so the world matrix is
  the local one.\<close>

definition updateModel ::
  "SectorContainer \<Rightarrow> CadModelMetadata \<Rightarrow> GpuOrderSectorsByVisibilityCoverage
     \<Rightarrow> GpuOrderSectorsByVisibilityCoverage" where
  "updateModel container model' s =
     (case store s (renderable container) of
        None \<Rightarrow> s
      | Some obj \<Rightarrow>
          s\<lparr> store := (store s)(renderable container \<mapsto>
                 obj\<lparr> matrix := modelMatrix model', matrixWorld := modelMatrix model' \<rparr>) \<rparr>)"

definition removeModel ::
  "string \<Rightarrow> GpuOrderSectorsByVisibilityCoverage \<Rightarrow> error + GpuOrderSectorsByVisibilityCoverage" where
  "removeModel modelIdentifier s =
     (case map_of (containers s) modelIdentifier of
        None \<Rightarrow> Inl (ModelNotFound modelIdentifier)
      | Some container \<Rightarrow>
          Inr (s\<lparr> scene := filter (\<lambda>r. r \<noteq> renderable container) (scene s),
                  containers := map_delete modelIdentifier (containers s) \<rparr>))"

text \<open>The first loop of \<^verbatim>\<open>setModels\<close>.\<close>

fun setModels_each ::
  "CadModelMetadata list \<Rightarrow> GpuOrderSectorsByVisibilityCoverage \<Rightarrow> GpuOrderSectorsByVisibilityCoverage" where
  "setModels_each [] s = s"
| "setModels_each (model' # models) s =
     setModels_each models
       (case map_of (containers s) (blobUrl model') of
          Some container \<Rightarrow> updateModel container model' s
        | None \<Rightarrow> addModel model' s)"

text \<open>The second loop: the identifiers to discard are removed one by one; a failing
  removal ends the call.\<close>

fun removeModels ::
  "string list \<Rightarrow> GpuOrderSectorsByVisibilityCoverage \<Rightarrow> error + GpuOrderSectorsByVisibilityCoverage" where
  "removeModels [] s = Inr s"
| "removeModels (k # ks) s =
     (case removeModel k s of Inl e \<Rightarrow> Inl e | Inr s' \<Rightarrow> removeModels ks s')"

definition setModels ::
  "CadModelMetadata list \<Rightarrow> GpuOrderSectorsByVisibilityCoverage \<Rightarrow> error + GpuOrderSectorsByVisibilityCoverage" where
  "setModels models s =
     (let keepModelIdentifiers = map blobUrl models;
          s1 = setModels_each models s;
          allIdentifiers = remdups (map fst (containers s1));
          discardIdentifiers = filter (\<lambda>x. x \<notin> set keepModelIdentifiers) allIdentifiers
      in removeModels discardIdentifiers s1)"

subsection \<open>Resolving a global sector id\<close>

fun find_container :: "(string \<times> SectorContainer) list \<Rightarrow> nat \<Rightarrow> error + SectorContainer" where
  "find_container [] sectorIdWithOffset' = Inl (OutOfRange sectorIdWithOffset')"
| "find_container ((k, container) # cs) sectorIdWithOffset' =
     (if sectorIdWithOffset' \<ge> sectorIdOffset container
         \<and> sectorIdWithOffset' < sectorIdOffset container + length (sectors container)
      then Inr container
      else find_container cs sectorIdWithOffset')"

definition findSectorContainer ::
  "GpuOrderSectorsByVisibilityCoverage \<Rightarrow> nat \<Rightarrow> error + SectorContainer" where
  "findSectorContainer s sectorIdWithOffset' = find_container (containers s) sectorIdWithOffset'"

subsection \<open>Decoding the read-back\<close>

text \<open>The weight function local to \<^verbatim>\<open>unpackSectorVisibility\<close>.\<close>

definition weight_fn :: "real \<Rightarrow> real \<Rightarrow> real" where
  "weight_fn x y = (let s = x * x + y * y in 0.5 * (2.5 - s) + exp (- sqrt s))"

text \<open>The body of the inner loop, for the pixel in column \<open>x\<close> of row \<open>y\<close>. As in the
  source, \<open>rx\<close> is computed from \<open>y\<close>.\<close>

definition unpack_pixel ::
  "nat \<Rightarrow> nat \<Rightarrow> 8 word list \<Rightarrow> nat \<Rightarrow> SectorVisibility option list \<Rightarrow> nat
     \<Rightarrow> SectorVisibility option list" where
  "unpack_pixel renderTargetWidth renderTargetHeight renderTargetBuffer y sectorVisibility x =
     (let halfHeight = real renderTargetHeight / 2;
          halfWidth = real renderTargetWidth / 2;
          ry = (real y - real renderTargetHeight / 2) / halfHeight;
          i = x + renderTargetWidth * y;
          r = renderTargetBuffer ! (4 * i + 0);
          g = renderTargetBuffer ! (4 * i + 1);
          b = renderTargetBuffer ! (4 * i + 2);
          distance' = unat (renderTargetBuffer ! (4 * i + 3))
      in if r \<noteq> 255 \<or> g \<noteq> 255 \<or> b \<noteq> 255 then
           (let rx = (real y - halfWidth) / halfWidth;
                sectorIdWithOffset' = unat b + unat g * 255 + unat r * 255 * 255;
                value = (case array_get sectorVisibility sectorIdWithOffset' of
                           Some v \<Rightarrow> v
                         | None \<Rightarrow> \<lparr> sectorIdWithOffset = sectorIdWithOffset',
                                     weight = 0, distance = distance' \<rparr>);
                value1 = value\<lparr> weight := weight value + weight_fn rx ry \<rparr>;
                value2 = value1\<lparr> distance := min (distance value1) distance' \<rparr>
            in array_set sectorVisibility sectorIdWithOffset' value2)
         else sectorVisibility)"

definition unpackSectorVisibility ::
  "nat \<Rightarrow> nat \<Rightarrow> 8 word list \<Rightarrow> SectorVisibility option list \<Rightarrow> SectorVisibility option list" where
  "unpackSectorVisibility renderTargetWidth renderTargetHeight renderTargetBuffer sectorVisibility =
     foldl (\<lambda>sv y.
              foldl (unpack_pixel renderTargetWidth renderTargetHeight renderTargetBuffer y)
                sv [0..<renderTargetWidth])
       sectorVisibility [0..<renderTargetHeight]"

definition prepareBuffers ::
  "GpuOrderSectorsByVisibilityCoverage \<Rightarrow> GpuOrderSectorsByVisibilityCoverage" where
  "prepareBuffers s =
     (let n = 4 * width (renderTarget s) * height (renderTarget s);
          buf = (if length (rtBuffer s) < n then replicate n 0 else rtBuffer s)
      in s\<lparr> rtBuffer := buf,
             sectorVisibilityBuffer :=
               map (map_option (\<lambda>entry. entry\<lparr> weight := 0 \<rparr>)) (sectorVisibilityBuffer s) \<rparr>)"

text \<open>\<^verbatim>\<open>readRenderTargetPixels\<close>: the first \<open>4 * width * height\<close> bytes of the
  buffer receive the picture.\<close>

definition readRenderTargetPixels :: "(nat \<Rightarrow> 8 word) \<Rightarrow> nat \<Rightarrow> nat \<Rightarrow> 8 word list \<Rightarrow> 8 word list" where
  "readRenderTargetPixels frame w h buffer =
     map frame [0..<min (4 * w * h) (length buffer)] @ drop (4 * w * h) buffer"

subsection \<open>The query\<close>

text \<open>The callback of \<^verbatim>\<open>.map\<close>: resolve one surviving entry.\<close>

definition to_prioritized ::
  "GpuOrderSectorsByVisibilityCoverage \<Rightarrow> real \<Rightarrow> SectorVisibility
     \<Rightarrow> error + PrioritizedSectorIdentifier" where
  "to_prioritized s totalWeight x =
     (case findSectorContainer s (sectorIdWithOffset x) of
        Inl e \<Rightarrow> Inl e
      | Inr container \<Rightarrow>
          Inr \<lparr> entry_model = model container,
                sectorId = sectorIdWithOffset x - sectorIdOffset container,
                priority = weight x / totalWeight,
                depth = distance x \<rparr>)"

text \<open>\<^verbatim>\<open>.map\<close> with a callback that may throw: the first failure ends the call.\<close>

fun map_throwing :: "('a \<Rightarrow> error + 'b) \<Rightarrow> 'a list \<Rightarrow> error + 'b list" where
  "map_throwing f [] = Inr []"
| "map_throwing f (x # xs) =
     (case f x of
        Inl e \<Rightarrow> Inl e
      | Inr y \<Rightarrow> (case map_throwing f xs of Inl e \<Rightarrow> Inl e | Inr ys \<Rightarrow> Inr (y # ys)))"

text \<open>Steps 2 to 4 of \<^verbatim>\<open>orderSectorsByVisibility\<close>: the state after the buffers were
  prepared, the picture was read back and decoded.\<close>

definition decode_frame ::
  "GpuOrderSectorsByVisibilityCoverage \<Rightarrow> (nat \<Rightarrow> 8 word) \<Rightarrow> GpuOrderSectorsByVisibilityCoverage" where
  "decode_frame s frame =
     (let s1 = prepareBuffers s;
          w = width (renderTarget s1);
          h = height (renderTarget s1);
          s2 = s1\<lparr> rtBuffer := readRenderTargetPixels frame w h (rtBuffer s1) \<rparr>
      in s2\<lparr> sectorVisibilityBuffer :=
               unpackSectorVisibility w h (rtBuffer s2) (sectorVisibilityBuffer s2) \<rparr>)"

text \<open>Step 5. The comparator \<^verbatim>\<open>right.weight - left.weight\<close> sorts by descending
  weight; the sort is stable.\<close>

definition rank_sectors ::
  "GpuOrderSectorsByVisibilityCoverage \<Rightarrow> error + PrioritizedSectorIdentifier list" where
  "rank_sectors s =
     (let sectorVisibility = array_elements (sectorVisibilityBuffer s);
          totalWeight = foldl (\<lambda>weight' x. weight x + weight') 0 sectorVisibility
      in map_throwing (to_prioritized s totalWeight)
           (sort_key (\<lambda>x. - weight x) (filter (\<lambda>x. weight x > 0) sectorVisibility)))"

definition orderSectorsByVisibility ::
  "GpuOrderSectorsByVisibilityCoverage \<Rightarrow> (nat \<Rightarrow> 8 word)
     \<Rightarrow> (error + PrioritizedSectorIdentifier list) \<times> GpuOrderSectorsByVisibilityCoverage" where
  "orderSectorsByVisibility s frame = (let s' = decode_frame s frame in (rank_sectors s', s'))"

subsection \<open>Sequences of calls\<close>

datatype call =
    SetModels "CadModelMetadata list"
  | OrderSectorsByVisibility "nat \<Rightarrow> 8 word"
  | CreateDebugCanvas

text \<open>The calls are made one after the other on the same instance; the first exception
  ends the sequence.\<close>

fun run :: "GpuOrderSectorsByVisibilityCoverage \<Rightarrow> call list \<Rightarrow> error + GpuOrderSectorsByVisibilityCoverage" where
  "run s [] = Inr s"
| "run s (SetModels models # cs) =
     (case setModels models s of Inl e \<Rightarrow> Inl e | Inr s' \<Rightarrow> run s' cs)"
| "run s (OrderSectorsByVisibility frame # cs) =
     (case orderSectorsByVisibility s frame of
        (Inl e, _) \<Rightarrow> Inl e
      | (Inr _, s') \<Rightarrow> run s' cs)"
| "run s (CreateDebugCanvas # cs) =
     (case createDebugCanvas s of Inl e \<Rightarrow> Inl e | Inr s' \<Rightarrow> run s' cs)"

text \<open>The same calls made by a caller that catches the exception of a query or of a
  repeated \<^verbatim>\<open>createDebugCanvas\<close> and goes on with the instance as the call left it: a
  query has prepared its buffers, read the picture back and decoded it before it can
  throw; \<^verbatim>\<open>createDebugCanvas\<close> throws before it changes anything. An exception out of
  \<^verbatim>\<open>setModels\<close> ends the sequence.\<close>

fun run_catching :: "GpuOrderSectorsByVisibilityCoverage \<Rightarrow> call list \<Rightarrow> error + GpuOrderSectorsByVisibilityCoverage" where
  "run_catching s [] = Inr s"
| "run_catching s (SetModels models # cs) =
     (case setModels models s of Inl e \<Rightarrow> Inl e | Inr s' \<Rightarrow> run_catching s' cs)"
| "run_catching s (OrderSectorsByVisibility frame # cs) =
     run_catching (snd (orderSectorsByVisibility s frame)) cs"
| "run_catching s (CreateDebugCanvas # cs) =
     (case createDebugCanvas s of Inl e \<Rightarrow> run_catching s cs | Inr s' \<Rightarrow> run_catching s' cs)"

subsection \<open>Id ranges\<close>

text \<open>The test of \<^verbatim>\<open>findSectorContainer\<close>, and whether some tracked container passes it.\<close>

definition in_range :: "SectorContainer \<Rightarrow> nat \<Rightarrow> bool" where
  "in_range c g \<longleftrightarrow> sectorIdOffset c \<le> g \<and> g < sectorIdOffset c + length (sectors c)"

definition tracked_id :: "GpuOrderSectorsByVisibilityCoverage \<Rightarrow> nat \<Rightarrow> bool" where
  "tracked_id s g = list_ex (\<lambda>kc. in_range (snd kc) g) (containers s)"

text \<open>\<open>range_before c c'\<close>: the id range of \<open>c\<close> ends where, or before, the range of
  \<open>c'\<close> begins.\<close>

definition range_before :: "SectorContainer \<Rightarrow> SectorContainer \<Rightarrow> bool" where
  "range_before c c' \<longleftrightarrow> sectorIdOffset c + length (sectors c) \<le> sectorIdOffset c'"

text \<open>The ranges of a list of containers follow one another, with gaps allowed, between
  \<open>lo\<close> and \<open>hi\<close>.\<close>

fun ranges_chain :: "nat \<Rightarrow> (string \<times> SectorContainer) list \<Rightarrow> nat \<Rightarrow> bool" where
  "ranges_chain lo [] hi \<longleftrightarrow> lo \<le> hi"
| "ranges_chain lo (kc # cs) hi \<longleftrightarrow>
     lo \<le> sectorIdOffset (snd kc)
     \<and> ranges_chain (sectorIdOffset (snd kc) + length (sectors (snd kc))) cs hi"

text \<open>The same without gaps: each offset is the sum of \<open>lo\<close> and of the sector counts
  before it, and the last range ends at \<open>hi\<close>.\<close>

fun ranges_cumulative :: "nat \<Rightarrow> (string \<times> SectorContainer) list \<Rightarrow> nat \<Rightarrow> bool" where
  "ranges_cumulative lo [] hi \<longleftrightarrow> lo = hi"
| "ranges_cumulative lo (kc # cs) hi \<longleftrightarrow>
     sectorIdOffset (snd kc) = lo
     \<and> ranges_cumulative (lo + length (sectors (snd kc))) cs hi"

subsection \<open>States between calls\<close>

text \<open>What holds of an instance between calls: keys are distinct, the ranges of the tracked
  containers follow one another below the running offset, and every container owns a
  proxy group of its own in the store.\<close>

definition state_inv :: "GpuOrderSectorsByVisibilityCoverage \<Rightarrow> bool" where
  "state_inv s \<longleftrightarrow>
     distinct (map fst (containers s))
     \<and> ranges_chain 0 (containers s) (this_sectorIdOffset s)
     \<and> distinct (map (\<lambda>kc. renderable (snd kc)) (containers s))
     \<and> (\<forall>kc \<in> set (containers s).
           renderable (snd kc) < next_ref s \<and> store s (renderable (snd kc)) \<noteq> None)"

text \<open>The fields that registering and removing models leave alone.\<close>

definition untouched ::
  "GpuOrderSectorsByVisibilityCoverage \<Rightarrow> GpuOrderSectorsByVisibilityCoverage \<Rightarrow> bool" where
  "untouched s s' \<longleftrightarrow>
     renderer s' = renderer s \<and> debugRenderer s' = debugRenderer s
     \<and> renderTarget s' = renderTarget s \<and> rtBuffer s' = rtBuffer s
     \<and> sectorVisibilityBuffer s' = sectorVisibilityBuffer s"

text \<open>The containers a call registered: those tracked after it under a key that was not
  tracked before it. The registrations of a sequence of calls, in the order they were
  made.\<close>

definition newly_registered ::
  "GpuOrderSectorsByVisibilityCoverage \<Rightarrow> GpuOrderSectorsByVisibilityCoverage
     \<Rightarrow> (string \<times> SectorContainer) list" where
  "newly_registered s s' = filter (\<lambda>kc. fst kc \<notin> fst ` set (containers s)) (containers s')"

fun registrations :: "GpuOrderSectorsByVisibilityCoverage \<Rightarrow> call list \<Rightarrow> (string \<times> SectorContainer) list" where
  "registrations s [] = []"
| "registrations s (c # cs) =
     (case run s [c] of
        Inl e \<Rightarrow> []
      | Inr s' \<Rightarrow> newly_registered s s' @ registrations s' cs)"

subsection \<open>The samples behind a result\<close>

text \<open>The decoded samples that \<^verbatim>\<open>orderSectorsByVisibility\<close> passes to its \<^verbatim>\<open>.map\<close> for
  a picture: those of positive weight, by descending weight. The total weight it divides
  by. The entry it builds for a sample from the container that owns the sample's id.\<close>

definition surviving :: "GpuOrderSectorsByVisibilityCoverage \<Rightarrow> (nat \<Rightarrow> 8 word) \<Rightarrow> SectorVisibility list" where
  "surviving s frame =
     sort_key (\<lambda>x. - weight x)
       (filter (\<lambda>x. weight x > 0) (array_elements (sectorVisibilityBuffer (decode_frame s frame))))"

definition total_weight :: "GpuOrderSectorsByVisibilityCoverage \<Rightarrow> (nat \<Rightarrow> 8 word) \<Rightarrow> real" where
  "total_weight s frame =
     foldl (\<lambda>weight' x. weight x + weight') 0
       (array_elements (sectorVisibilityBuffer (decode_frame s frame)))"

definition entry_of :: "SectorContainer \<Rightarrow> real \<Rightarrow> SectorVisibility \<Rightarrow> PrioritizedSectorIdentifier" where
  "entry_of c totalWeight x =
     \<lparr> entry_model = model c, sectorId = sectorIdWithOffset x - sectorIdOffset c,
       priority = weight x / totalWeight, depth = distance x \<rparr>"

subsection \<open>Updating the transform of a proxy group\<close>

text \<open>What \<^verbatim>\<open>updateModel\<close> does to a proxy group, and the matrices of the models of a
  \<^verbatim>\<open>setModels\<close> input that carry a given key, in input order.\<close>

definition set_transform :: "Matrix4 \<Rightarrow> Object3D \<Rightarrow> Object3D" where
  "set_transform m obj = obj\<lparr> matrix := m, matrixWorld := m \<rparr>"

definition transforms_for :: "string \<Rightarrow> CadModelMetadata list \<Rightarrow> Matrix4 list" where
  "transforms_for k ms = map modelMatrix (filter (\<lambda>m. blobUrl m = k) ms)"

subsection \<open>Instances of a proxy mesh\<close>

text \<open>What instance \<open>i\<close> of a mesh holds: its four interleaved values and its box. What
  \<^verbatim>\<open>addSector\<close> writes for a sector: the single-precision roundings of the id with
  offset, of the coverage factors \<open>(yz, xz, xy)\<close>, and of the centre and size of the
  bounds. A mesh of \<open>n\<close> instances.\<close>

definition instance_at ::
  "InstancedMesh \<Rightarrow> nat \<Rightarrow> (float32 \<times> float32 \<times> float32 \<times> float32) \<times> (vec3f \<times> vec3f) option" where
  "instance_at m i =
     ((instanceValues m ! (4 * i), instanceValues m ! (4 * i + 1),
       instanceValues m ! (4 * i + 2), instanceValues m ! (4 * i + 3)),
      instanceMatrix m ! i)"

definition sector_instance ::
  "nat \<Rightarrow> SectorMetadata \<Rightarrow> (float32 \<times> float32 \<times> float32 \<times> float32) \<times> (vec3f \<times> vec3f) option" where
  "sector_instance sectorIdOffset' sector =
     ((fround (real (sectorIdOffset' + sector_id sector)),
       fround (yz (coverageFactors sector)), fround (xz (coverageFactors sector)),
       fround (xy (coverageFactors sector))),
      Some (fround3 (box_center (bounds sector)), fround3 (box_size (bounds sector))))"

definition mesh_sized :: "nat \<Rightarrow> InstancedMesh \<Rightarrow> bool" where
  "mesh_sized n m \<longleftrightarrow>
     instance_count m = n \<and> length (instanceMatrix m) = n \<and> length (instanceValues m) = 4 * n"

subsection \<open>Example data\<close>

text \<open>Sectors with a unit box, and a model of \<open>n\<close> such sectors numbered from 0 in list
  order.\<close>

definition unit_box :: Box3 where
  "unit_box = \<lparr> box_min = (-1, -1, -1), box_max = (1, 1, 1) \<rparr>"

definition example_sector :: "nat \<Rightarrow> SectorMetadata" where
  "example_sector i =
     \<lparr> sector_id = i, bounds = unit_box,
       coverageFactors = \<lparr> xy = 1 / 2, xz = 1 / 4, yz = 1 / 8 \<rparr> \<rparr>"

definition example_model :: "string \<Rightarrow> nat \<Rightarrow> CadModelMetadata" where
  "example_model url n =
     \<lparr> blobUrl = url, modelMatrix = [1], scene_getAllSectors = map example_sector [0..<n] \<rparr>"

text \<open>The container of the second of two one-sector models, and a model that comes back
  under its key with another matrix.\<close>

definition second_model_container :: SectorContainer where
  "second_model_container =
     \<lparr> model = example_model ''model2'' 1, sectors = [example_sector 0],
       sectorIdOffset = 1, renderable = 1 \<rparr>"

definition moved_model :: CadModelMetadata where
  "moved_model = (example_model ''a'' 1)\<lparr> modelMatrix := [2] \<rparr>"

text \<open>A model of two sectors with decimal coverage and bounds.\<close>

definition decimal_sector :: "nat \<Rightarrow> SectorMetadata" where
  "decimal_sector i =
     \<lparr> sector_id = i,
       bounds = \<lparr> box_min = (0, 0, 0), box_max = (1 / 10, 1 / 10, 1 / 10) \<rparr>,
       coverageFactors = \<lparr> xy = 1 / 10, xz = 1 / 4, yz = 1 / 8 \<rparr> \<rparr>"

definition decimal_model :: CadModelMetadata where
  "decimal_model =
     \<lparr> blobUrl = ''d'', modelMatrix = [1],
       scene_getAllSectors = [decimal_sector 0, decimal_sector 1] \<rparr>"

text \<open>A model whose sector list is not in the order of the sector ids.\<close>

definition reordered_model :: CadModelMetadata where
  "reordered_model =
     \<lparr> blobUrl = ''r'', modelMatrix = [1],
       scene_getAllSectors =
         [(example_sector 1)\<lparr> coverageFactors := \<lparr> xy = 1, xz = 1, yz = 1 \<rparr> \<rparr>,
          example_sector 0] \<rparr>"

text \<open>Pictures, byte by byte (four bytes per pixel; white is the background).
  \<open>tall_frame\<close>, for a target 1 wide and 4 high: sector 0 in row 0, sector 1 in row 3.
  \<open>corner_frame\<close>, for a target 2 by 2: sector 0 in column 1 of row 0.
  \<open>second_frame\<close>, for a target 1 by 1: the global id 1 at depth 255.
  \<open>near_frame\<close> and \<open>far_frame\<close>, for a target 1 by 1: sector 0 at depth 10 and at depth
  200.\<close>

definition tall_frame :: "nat \<Rightarrow> 8 word" where
  "tall_frame i =
     (if i < 3 then 0 else if i = 3 then 7
      else if i = 12 \<or> i = 13 then 0 else if i = 14 then 1 else if i = 15 then 9
      else 255)"

definition corner_frame :: "nat \<Rightarrow> 8 word" where
  "corner_frame i = (if i = 4 \<or> i = 5 \<or> i = 6 then 0 else 255)"

definition second_frame :: "nat \<Rightarrow> 8 word" where
  "second_frame i = (if i = 2 then 1 else if i = 3 then 255 else 0)"

definition near_frame :: "nat \<Rightarrow> 8 word" where
  "near_frame i = (if i = 3 then 10 else 0)"

definition far_frame :: "nat \<Rightarrow> 8 word" where
  "far_frame i = (if i = 3 then 200 else 0)"

section \<open>Properties\<close>

subsection \<open>Evaluation\<close>

lemmas eval_defs = constructor_def setModels_def addModel_def updateModel_def removeModel_def
  map_delete_def Let_def createSectorTreeMesh_def forEach_sector_def addSector_def typed_set_def
  example_model_def example_sector_def unit_box_def box_isEmpty_def box_center_def box_size_def
  newly_registered_def

subsection \<open>Ranges that follow one another\<close>

lemma chain_le: "ranges_chain lo cs hi \<Longrightarrow> lo \<le> hi"
proof (induction cs arbitrary: lo)
  case Nil then show ?case by simp
next
  case (Cons kc cs)
  then have "sectorIdOffset (snd kc) + length (sectors (snd kc)) \<le> hi" by simp
  with Cons.prems show ?case by simp
qed

lemma chain_mono: "ranges_chain lo cs hi \<Longrightarrow> lo' \<le> lo \<Longrightarrow> hi \<le> hi' \<Longrightarrow> ranges_chain lo' cs hi'"
  by (induction cs arbitrary: lo lo') auto

lemma chain_filter: "ranges_chain lo cs hi \<Longrightarrow> ranges_chain lo (filter P cs) hi"
proof (induction cs arbitrary: lo)
  case Nil then show ?case by simp
next
  case (Cons kc cs)
  then have t: "ranges_chain (sectorIdOffset (snd kc) + length (sectors (snd kc))) (filter P cs) hi"
    by simp
  show ?case
  proof (cases "P kc")
    case True with Cons.prems t show ?thesis by simp
  next
    case False
    from Cons.prems have "lo \<le> sectorIdOffset (snd kc) + length (sectors (snd kc))" by simp
    with t False show ?thesis by (simp add: chain_mono)
  qed
qed

lemma chain_append:
  "ranges_chain lo cs mid \<Longrightarrow> ranges_chain mid ds hi \<Longrightarrow> ranges_chain lo (cs @ ds) hi"
proof (induction cs arbitrary: lo)
  case Nil then show ?case by (simp add: chain_mono)
next
  case (Cons kc cs) then show ?case by simp
qed

lemma cumulative_chain: "ranges_cumulative lo cs hi \<Longrightarrow> ranges_chain lo cs hi"
  by (induction cs arbitrary: lo) auto

lemma cumulative_append:
  "ranges_cumulative lo cs mid \<Longrightarrow> ranges_cumulative mid ds hi \<Longrightarrow> ranges_cumulative lo (cs @ ds) hi"
  by (induction cs arbitrary: lo) auto

lemma map_set_absent: "map_of kvs k = None \<Longrightarrow> map_set k v kvs = kvs @ [(k, v)]"
  by (induction kvs) (auto split: if_splits)

lemma map_of_map_set: "map_of (map_set k v kvs) k' = (if k' = k then Some v else map_of kvs k')"
  by (induction kvs) auto

lemma inv_constructor: "state_inv (constructor rs)"
  by (simp add: state_inv_def constructor_def split: option.splits prod.splits)

lemma updateModel_fields:
  "containers (updateModel c m s) = containers s"
  "this_sectorIdOffset (updateModel c m s) = this_sectorIdOffset s"
  "next_ref (updateModel c m s) = next_ref s"
  by (simp_all add: updateModel_def split: option.splits)

lemma updateModel_store_dom: "store (updateModel c m s) r = None \<longleftrightarrow> store s r = None"
  by (simp add: updateModel_def split: option.splits)

lemma inv_updateModel: "state_inv s \<Longrightarrow> state_inv (updateModel c m s)"
  by (simp add: state_inv_def updateModel_fields updateModel_store_dom)

lemma addModel_fields:
  assumes "map_of (containers s) (blobUrl m) = None"
  shows "containers (addModel m s) =
           containers s @ [(blobUrl m, \<lparr> model = m, sectors = scene_getAllSectors m,
                                         sectorIdOffset = this_sectorIdOffset s,
                                         renderable = next_ref s \<rparr>)]"
    and "this_sectorIdOffset (addModel m s) = this_sectorIdOffset s + length (scene_getAllSectors m)"
    and "next_ref (addModel m s) = next_ref s + 1"
    and "store (addModel m s) =
           (store s)(next_ref s \<mapsto>
              createSectorTreeMesh (this_sectorIdOffset s) (scene_getAllSectors m) (modelMatrix m))"
  using assms by (simp_all add: addModel_def Let_def map_set_absent)

lemma inv_addModel:
  assumes "state_inv s" and "map_of (containers s) (blobUrl m) = None"
  shows "state_inv (addModel m s)"
proof -
  let ?c = "\<lparr> model = m, sectors = scene_getAllSectors m,
              sectorIdOffset = this_sectorIdOffset s, renderable = next_ref s \<rparr>"
  have k: "blobUrl m \<notin> fst ` set (containers s)"
    using assms(2) by (simp add: map_of_eq_None_iff)
  have r: "next_ref s \<notin> (\<lambda>kc. renderable (snd kc)) ` set (containers s)"
    using assms(1) by (auto simp: state_inv_def)
  have ch: "ranges_chain 0 (containers s @ [(blobUrl m, ?c)])
              (this_sectorIdOffset s + length (scene_getAllSectors m))"
    using assms(1) by (intro chain_append [where mid = "this_sectorIdOffset s"]) (simp_all add: state_inv_def)
  show ?thesis
    unfolding state_inv_def addModel_fields [OF assms(2)]
    using assms(1) k r ch by (auto simp: state_inv_def less_Suc_eq)
qed

lemma setModels_each_effect:
  assumes "state_inv s"
  shows "state_inv (setModels_each ms s)
         \<and> (\<exists>new. containers (setModels_each ms s) = containers s @ new
               \<and> ranges_cumulative (this_sectorIdOffset s) new (this_sectorIdOffset (setModels_each ms s))
               \<and> fst ` set new \<subseteq> blobUrl ` set ms)"
  using assms
proof (induction ms arbitrary: s)
  case Nil
  then show ?case by simp
next
  case (Cons m ms)
  show ?case
  proof (cases "map_of (containers s) (blobUrl m)")
    case None
    let ?s1 = "addModel m s"
    have i1: "state_inv ?s1" using Cons.prems None by (rule inv_addModel)
    from Cons.IH [OF i1] obtain new where
      i2: "state_inv (setModels_each ms ?s1)"
      and c: "containers (setModels_each ms ?s1) = containers ?s1 @ new"
      and r: "ranges_cumulative (this_sectorIdOffset ?s1) new (this_sectorIdOffset (setModels_each ms ?s1))"
      and k: "fst ` set new \<subseteq> blobUrl ` set ms"
      by blast
    let ?kc = "(blobUrl m, \<lparr> model = m, sectors = scene_getAllSectors m,
                  sectorIdOffset = this_sectorIdOffset s, renderable = next_ref s \<rparr>)"
    have e: "setModels_each (m # ms) s = setModels_each ms ?s1" using None by simp
    have c': "containers (setModels_each ms ?s1) = containers s @ (?kc # new)"
      using c by (simp add: addModel_fields(1) [OF None])
    have r': "ranges_cumulative (this_sectorIdOffset s) (?kc # new)
                (this_sectorIdOffset (setModels_each ms ?s1))"
      using r by (simp add: addModel_fields(2) [OF None])
    have k': "fst ` set (?kc # new) \<subseteq> blobUrl ` set (m # ms)" using k by auto
    show ?thesis unfolding e using i2 c' r' k' by blast
  next
    case (Some c)
    let ?s1 = "updateModel c m s"
    have i1: "state_inv ?s1" using Cons.prems by (rule inv_updateModel)
    have e: "setModels_each (m # ms) s = setModels_each ms ?s1" using Some by simp
    from Cons.IH [OF i1] show ?thesis
      unfolding e by (auto simp: updateModel_fields)
  qed
qed

lemma setModels_each_untouched: "untouched s (setModels_each ms s)"
proof (induction ms arbitrary: s)
  case Nil show ?case by (simp add: untouched_def)
next
  case (Cons m ms)
  have "untouched s (case map_of (containers s) (blobUrl m) of
          Some container \<Rightarrow> updateModel container m s | None \<Rightarrow> addModel m s)"
    by (simp add: untouched_def updateModel_def addModel_def Let_def split: option.splits)
  with Cons.IH show ?case by (simp add: untouched_def)
qed

lemma removeModels_effect:
  assumes "set ks \<subseteq> fst ` set (containers s)" and "distinct ks"
  shows "\<exists>s'. removeModels ks s = Inr s'
           \<and> containers s' = filter (\<lambda>kc. fst kc \<notin> set ks) (containers s)
           \<and> this_sectorIdOffset s' = this_sectorIdOffset s
           \<and> store s' = store s \<and> next_ref s' = next_ref s \<and> untouched s s'"
  using assms
proof (induction ks arbitrary: s)
  case Nil
  then show ?case by (simp add: untouched_def)
next
  case (Cons k ks)
  from Cons.prems(1) have "k \<in> fst ` set (containers s)" by simp
  then obtain c where c: "map_of (containers s) k = Some c"
    by (metis map_of_eq_None_iff not_Some_eq)
  let ?s1 = "s\<lparr> scene := filter (\<lambda>r. r \<noteq> renderable c) (scene s),
                containers := map_delete k (containers s) \<rparr>"
  have rm: "removeModel k s = Inr ?s1" using c by (simp add: removeModel_def)
  have sub: "set ks \<subseteq> fst ` set (containers ?s1)"
  proof
    fix x assume x: "x \<in> set ks"
    with Cons.prems have "x \<noteq> k" and "x \<in> fst ` set (containers s)" by auto
    then obtain kc where "kc \<in> set (containers s)" and "fst kc = x" by auto
    with \<open>x \<noteq> k\<close> have "kc \<in> set (containers ?s1)" by (simp add: map_delete_def)
    with \<open>fst kc = x\<close> show "x \<in> fst ` set (containers ?s1)" by force
  qed
  from Cons.IH [OF sub] Cons.prems(2) obtain s' where
    r: "removeModels ks ?s1 = Inr s'"
    and cs: "containers s' = filter (\<lambda>kc. fst kc \<notin> set ks) (containers ?s1)"
    and rest: "this_sectorIdOffset s' = this_sectorIdOffset ?s1" "store s' = store ?s1"
      "next_ref s' = next_ref ?s1" "untouched ?s1 s'"
    by auto
  have "removeModels (k # ks) s = Inr s'" using rm r by simp
  moreover have "containers s' = filter (\<lambda>kc. fst kc \<notin> set (k # ks)) (containers s)"
    using cs by (auto simp: map_delete_def intro: filter_cong)
  ultimately show ?case using rest by (simp add: untouched_def)
qed

lemma inv_filter:
  assumes "state_inv s" and "containers s' = filter P (containers s)"
    and "this_sectorIdOffset s' = this_sectorIdOffset s" and "store s' = store s"
    and "next_ref s' = next_ref s"
  shows "state_inv s'"
  using assms
  by (auto simp: state_inv_def distinct_map_filter chain_filter)

lemma setModels_effect:
  assumes "state_inv s"
  shows "\<exists>s'. setModels ms s = Inr s' \<and> state_inv s'
           \<and> containers s' = filter (\<lambda>kc. fst kc \<in> blobUrl ` set ms) (containers (setModels_each ms s))
           \<and> this_sectorIdOffset s' = this_sectorIdOffset (setModels_each ms s)
           \<and> store s' = store (setModels_each ms s)
           \<and> next_ref s' = next_ref (setModels_each ms s)
           \<and> untouched s s'"
proof -
  let ?s1 = "setModels_each ms s"
  let ?ks = "filter (\<lambda>x. x \<notin> set (map blobUrl ms)) (remdups (map fst (containers ?s1)))"
  have i1: "state_inv ?s1" using setModels_each_effect [OF assms] by blast
  have "set ?ks \<subseteq> fst ` set (containers ?s1)" and "distinct ?ks" by auto
  from removeModels_effect [OF this] obtain s' where
    r: "removeModels ?ks ?s1 = Inr s'"
    and cs: "containers s' = filter (\<lambda>kc. fst kc \<notin> set ?ks) (containers ?s1)"
    and rest: "this_sectorIdOffset s' = this_sectorIdOffset ?s1" "store s' = store ?s1"
      "next_ref s' = next_ref ?s1" "untouched ?s1 s'"
    by blast
  have e: "setModels ms s = Inr s'" using r by (simp add: setModels_def Let_def)
  have cs': "containers s' = filter (\<lambda>kc. fst kc \<in> blobUrl ` set ms) (containers ?s1)"
    unfolding cs by (rule filter_cong) auto
  have i': "state_inv s'" using i1 cs' rest(1-3) by (rule inv_filter)
  have u: "untouched s s'"
    using setModels_each_untouched [of s ms] rest(4) by (simp add: untouched_def)
  show ?thesis using e i' cs' rest(1-3) u by blast
qed

lemma setModels_registered:
  assumes "state_inv s" and "setModels ms s = Inr s'"
  shows "ranges_cumulative (this_sectorIdOffset s) (newly_registered s s') (this_sectorIdOffset s')"
proof -
  from setModels_effect [OF assms(1), of ms] assms(2)
  have cs: "containers s' = filter (\<lambda>kc. fst kc \<in> blobUrl ` set ms) (containers (setModels_each ms s))"
    and off: "this_sectorIdOffset s' = this_sectorIdOffset (setModels_each ms s)"
    by auto
  from setModels_each_effect [OF assms(1), of ms] obtain new where
    i1: "state_inv (setModels_each ms s)"
    and c: "containers (setModels_each ms s) = containers s @ new"
    and r: "ranges_cumulative (this_sectorIdOffset s) new (this_sectorIdOffset (setModels_each ms s))"
    and k: "fst ` set new \<subseteq> blobUrl ` set ms"
    by blast
  have d: "distinct (map fst (containers s @ new))" using i1 c by (simp add: state_inv_def)
  have "newly_registered s s' = new"
  proof -
    have 1: "filter (\<lambda>kc. fst kc \<notin> fst ` set (containers s)) (filter (\<lambda>kc. fst kc \<in> blobUrl ` set ms) (containers s)) = []"
      by (simp add: filter_empty_conv)
    have 2: "filter (\<lambda>kc. fst kc \<notin> fst ` set (containers s)) (filter (\<lambda>kc. fst kc \<in> blobUrl ` set ms) new) = new"
      using d k by (auto simp: filter_id_conv)
    show ?thesis unfolding newly_registered_def cs c using 1 2 by simp
  qed
  with r off show ?thesis by simp
qed

lemma decode_frame_fields:
  "containers (decode_frame s f) = containers s"
  "this_sectorIdOffset (decode_frame s f) = this_sectorIdOffset s"
  "store (decode_frame s f) = store s"
  "next_ref (decode_frame s f) = next_ref s"
  "renderTarget (decode_frame s f) = renderTarget s"
  "renderer (decode_frame s f) = renderer s"
  "debugRenderer (decode_frame s f) = debugRenderer s"
  by (simp_all add: decode_frame_def prepareBuffers_def Let_def)

lemma inv_decode_frame: "state_inv s \<Longrightarrow> state_inv (decode_frame s f)"
  by (simp add: state_inv_def decode_frame_fields)

lemma newly_registered_same:
  "containers s' = containers s \<Longrightarrow> newly_registered s s' = []"
  by (simp add: newly_registered_def filter_empty_conv)

lemma run_single:
  assumes "state_inv s" and "run s [c] = Inr s'"
  shows "state_inv s'
         \<and> ranges_cumulative (this_sectorIdOffset s) (newly_registered s s') (this_sectorIdOffset s')"
proof (cases c)
  case (SetModels ms)
  with assms(2) have e: "setModels ms s = Inr s'" by (simp split: sum.splits)
  from setModels_effect [OF assms(1), of ms] e have "state_inv s'" by auto
  with setModels_registered [OF assms(1) e] show ?thesis by simp
next
  case (OrderSectorsByVisibility f)
  with assms(2) have e: "s' = decode_frame s f"
    by (auto simp: orderSectorsByVisibility_def Let_def split: sum.splits)
  show ?thesis unfolding e using assms(1)
    by (simp add: inv_decode_frame decode_frame_fields newly_registered_same)
next
  case CreateDebugCanvas
  with assms(2) have e: "s' = s\<lparr> debugRenderer := Some \<lparr> renderer_dispose_calls = 0 \<rparr> \<rparr>"
    by (auto simp: createDebugCanvas_def split: option.splits)
  show ?thesis unfolding e using assms(1)
    by (simp add: state_inv_def newly_registered_same)
qed

lemma run_Cons: "run s (c # cs) = (case run s [c] of Inl e \<Rightarrow> Inl e | Inr s' \<Rightarrow> run s' cs)"
  by (cases c) (auto split: sum.splits prod.splits)

lemma run_inv:
  assumes "state_inv s" and "run s cs = Inr s'"
  shows "state_inv s'
         \<and> ranges_cumulative (this_sectorIdOffset s) (registrations s cs) (this_sectorIdOffset s')"
  using assms
proof (induction cs arbitrary: s)
  case Nil
  then show ?case by simp
next
  case (Cons c cs)
  from Cons.prems(2) obtain s1 where s1: "run s [c] = Inr s1" and r: "run s1 cs = Inr s'"
    by (subst (asm) run_Cons) (auto split: sum.splits)
  from run_single [OF Cons.prems(1) s1] have i1: "state_inv s1"
    and c1: "ranges_cumulative (this_sectorIdOffset s) (newly_registered s s1) (this_sectorIdOffset s1)"
    by auto
  from Cons.IH [OF i1 r] have i': "state_inv s'"
    and c2: "ranges_cumulative (this_sectorIdOffset s1) (registrations s1 cs) (this_sectorIdOffset s')"
    by auto
  have "registrations s (c # cs) = newly_registered s s1 @ registrations s1 cs"
    using s1 by simp
  with cumulative_append [OF c1 c2] i' show ?case by simp
qed

lemma run_setModels_total:
  assumes "state_inv s"
  shows "\<exists>s'. run s (map SetModels mss) = Inr s'"
  using assms
proof (induction mss arbitrary: s)
  case Nil
  then show ?case by simp
next
  case (Cons ms mss)
  from setModels_effect [OF Cons.prems, of ms] obtain s1 where
    e: "setModels ms s = Inr s1" and i1: "state_inv s1" by blast
  from Cons.IH [OF i1] e show ?case by simp
qed

lemma chain_bounds:
  "ranges_chain lo cs hi \<Longrightarrow> kc \<in> set cs \<Longrightarrow>
     lo \<le> sectorIdOffset (snd kc) \<and> sectorIdOffset (snd kc) + length (sectors (snd kc)) \<le> hi"
proof (induction cs arbitrary: lo)
  case Nil
  then show ?case by simp
next
  case (Cons a cs)
  show ?case
  proof (cases "kc = a")
    case True
    with Cons.prems(1) chain_le [of "sectorIdOffset (snd a) + length (sectors (snd a))" cs hi]
    show ?thesis by simp
  next
    case False
    with Cons.prems have "kc \<in> set cs"
      and "ranges_chain (sectorIdOffset (snd a) + length (sectors (snd a))) cs hi"
      and "lo \<le> sectorIdOffset (snd a)"
      by auto
    with Cons.IH [of "sectorIdOffset (snd a) + length (sectors (snd a))"] show ?thesis
      by auto
  qed
qed

lemma chain_sorted:
  "ranges_chain lo cs hi \<Longrightarrow> sorted_wrt range_before (map snd cs)"
proof (induction cs arbitrary: lo)
  case Nil
  then show ?case by simp
next
  case (Cons a cs)
  then have t: "ranges_chain (sectorIdOffset (snd a) + length (sectors (snd a))) cs hi" by simp
  have "\<forall>kc \<in> set cs. range_before (snd a) (snd kc)"
    using chain_bounds [OF t] by (simp add: range_before_def)
  with Cons.IH [OF t] show ?case by auto
qed

lemma sorted_strict:
  assumes "sorted_wrt range_before cs" and "\<forall>c \<in> set cs. sectors c \<noteq> []"
  shows "sorted_wrt (<) (map sectorIdOffset cs)"
  using assms
proof (induction cs)
  case Nil
  then show ?case by simp
next
  case (Cons a cs)
  then have "\<forall>c \<in> set cs. sectorIdOffset a < sectorIdOffset c"
    by (auto simp: range_before_def) (metis length_greater_0_conv add_lessD1 less_add_same_cancel1 order_less_le_trans)
  with Cons show ?case by simp
qed

lemma find_in_chain:
  assumes "ranges_chain lo cs hi" and "(k, c) \<in> set cs"
    and "sectorIdOffset c \<le> g" and "g < sectorIdOffset c + length (sectors c)"
  shows "find_container cs g = Inr c"
  using assms(1,2)
proof (induction cs arbitrary: lo)
  case Nil
  then show ?case by simp
next
  case (Cons a cs)
  obtain k' c' where a: "a = (k', c')" by (cases a)
  from Cons.prems(1) have t: "ranges_chain (sectorIdOffset c' + length (sectors c')) cs hi"
    by (simp add: a)
  show ?case
  proof (cases "(k, c) = a")
    case True
    with assms(3,4) show ?thesis by (simp add: a)
  next
    case False
    with Cons.prems(2) have m: "(k, c) \<in> set cs" by simp
    from chain_bounds [OF t m] have "sectorIdOffset c' + length (sectors c') \<le> sectorIdOffset c"
      by simp
    with assms(3) have "\<not> g < sectorIdOffset c' + length (sectors c')" by simp
    with Cons.IH [OF t m] show ?thesis by (simp add: a)
  qed
qed

subsection \<open>The id offsets of registered models\<close>

text \<open>
  Claim C5 says that the offsets given to newly registered models are strictly increasing.
  A model may have no sector at all: it receives the running offset and leaves it where
  it was, so the next model receives the same offset.
\<close>

theorem offsets_not_strictly_increasing:
  "\<not> sorted_wrt (<) (map (\<lambda>kc. sectorIdOffset (snd kc))
        (registrations (constructor None)
          [SetModels [example_model ''a'' 0, example_model ''b'' 1]]))"
  by (simp add: eval_defs upt_rec)

text \<open>
  Claim C5, amended. After any sequence of \<^verbatim>\<open>setModels\<close> calls on a new instance
  (no call of the sequence fails):
  \<^item> the offsets of all the registrations made, in the order they were made, are the
    cumulative sector counts, starting at 0 and ending at the running offset; so the
    ranges follow one another without overlap, a range given once is never given again,
    also after its model was removed;
  \<^item> the offsets never decrease, and they increase strictly when every registered model
    has at least one sector;
  \<^item> the ranges of the models tracked at the end follow one another without overlap.
\<close>

theorem id_ranges_cumulative:
  "\<exists>s. run (constructor rs) (map SetModels mss) = Inr s
     \<and> ranges_cumulative 0 (registrations (constructor rs) (map SetModels mss)) (this_sectorIdOffset s)
     \<and> sorted_wrt range_before (map snd (registrations (constructor rs) (map SetModels mss)))
     \<and> sorted_wrt (\<le>) (map (\<lambda>kc. sectorIdOffset (snd kc)) (registrations (constructor rs) (map SetModels mss)))
     \<and> ((\<forall>kc \<in> set (registrations (constructor rs) (map SetModels mss)). sectors (snd kc) \<noteq> [])
          \<longrightarrow> sorted_wrt (<) (map (\<lambda>kc. sectorIdOffset (snd kc))
                 (registrations (constructor rs) (map SetModels mss))))
     \<and> sorted_wrt range_before (map snd (containers s))"
proof -
  let ?regs = "registrations (constructor rs) (map SetModels mss)"
  from run_setModels_total [OF inv_constructor] obtain s where
    r: "run (constructor rs) (map SetModels mss) = Inr s" by blast
  from run_inv [OF inv_constructor r] have i: "state_inv s"
    and c: "ranges_cumulative (this_sectorIdOffset (constructor rs)) ?regs (this_sectorIdOffset s)"
    by auto
  have z: "this_sectorIdOffset (constructor rs) = 0"
    by (simp add: constructor_def split: option.splits prod.splits)
  have c0: "ranges_cumulative 0 ?regs (this_sectorIdOffset s)" using c z by simp
  have so: "sorted_wrt range_before (map snd ?regs)"
    using cumulative_chain [OF c0] by (rule chain_sorted)
  have le: "sorted_wrt (\<le>) (map sectorIdOffset (map snd ?regs))"
    by (rule sorted_wrt_map_mono [OF so]) (simp add: range_before_def)
  have st: "(\<forall>kc \<in> set ?regs. sectors (snd kc) \<noteq> [])
              \<longrightarrow> sorted_wrt (<) (map sectorIdOffset (map snd ?regs))"
    using sorted_strict [OF so] by auto
  have live: "sorted_wrt range_before (map snd (containers s))"
    using i chain_sorted by (auto simp: state_inv_def)
  have m: "map sectorIdOffset (map snd ?regs) = map (\<lambda>kc. sectorIdOffset (snd kc)) ?regs"
    by simp
  show ?thesis using r c0 so le st live unfolding m by blast
qed

theorem id_ranges_cumulative_witness:
  "sorted_wrt (<) (map (\<lambda>kc. sectorIdOffset (snd kc))
        (registrations (constructor None)
          (map SetModels [[example_model ''a'' 1, example_model ''b'' 2], [example_model ''b'' 2],
             [example_model ''b'' 2, example_model ''a'' 1]])))
   \<and> map (\<lambda>kc. (fst kc, sectorIdOffset (snd kc), length (sectors (snd kc))))
        (registrations (constructor None)
          (map SetModels [[example_model ''a'' 1, example_model ''b'' 2], [example_model ''b'' 2],
             [example_model ''b'' 2, example_model ''a'' 1]]))
       = [(''a'', 0, 1), (''b'', 1, 2), (''a'', 3, 1)]"
proof -
  let ?mss = "[[example_model ''a'' 1, example_model ''b'' 2], [example_model ''b'' 2],
           [example_model ''b'' 2, example_model ''a'' 1]]"
  have e: "map (\<lambda>kc. (fst kc, sectorIdOffset (snd kc), length (sectors (snd kc))))
        (registrations (constructor None) (map SetModels ?mss))
       = [(''a'', 0, 1), (''b'', 1, 2), (''a'', 3, 1)]"
    by (simp add: eval_defs upt_rec)
  have h: "\<forall>kc \<in> set (registrations (constructor None) (map SetModels ?mss)). sectors (snd kc) \<noteq> []"
    by (simp add: eval_defs upt_rec)
  from id_ranges_cumulative [of None ?mss] h e show ?thesis by blast
qed

subsection \<open>A tracked model that is passed again\<close>

lemma map_of_append_Some: "map_of xs k = Some v \<Longrightarrow> map_of (xs @ ys) k = Some v"
  by (simp add: map_add_Some_iff)

lemma map_of_filter_key:
  "map_of (filter (\<lambda>kc. Q (fst kc)) xs) k = (if Q k then map_of xs k else None)"
  by (induction xs) auto

lemma tracked_ref:
  assumes "state_inv s" and "map_of (containers s) k = Some c"
  shows "renderable c < next_ref s" and "store s (renderable c) \<noteq> None"
  using assms map_of_SomeD [OF assms(2)] by (auto simp: state_inv_def)

lemma tracked_ref_distinct:
  assumes "state_inv s" and "map_of (containers s) k = Some c"
    and "map_of (containers s) k' = Some c'" and "k' \<noteq> k"
  shows "renderable c' \<noteq> renderable c"
proof -
  have d: "distinct (map (\<lambda>kc. renderable (snd kc)) (containers s))"
    using assms(1) by (simp add: state_inv_def)
  have "(k, c) \<in> set (containers s)" "(k', c') \<in> set (containers s)"
    using assms(2,3) by (auto dest: map_of_SomeD)
  with d assms(4) show ?thesis
    by (metis distinct_map fst_conv inj_onD snd_conv)
qed

lemma setModels_each_tracked:
  assumes "state_inv s" and "map_of (containers s) k = Some c"
    and "store s (renderable c) = Some obj"
  shows "map_of (containers (setModels_each ms s)) k = Some c
         \<and> store (setModels_each ms s) (renderable c) =
             Some (foldl (\<lambda>ob m. set_transform m ob) obj (transforms_for k ms))"
  using assms
proof (induction ms arbitrary: s obj)
  case Nil
  then show ?case by (simp add: transforms_for_def)
next
  case (Cons m ms)
  show ?case
  proof (cases "map_of (containers s) (blobUrl m)")
    case None
    then have ne: "blobUrl m \<noteq> k" using Cons.prems(2) by auto
    let ?s1 = "addModel m s"
    have i1: "state_inv ?s1" using Cons.prems(1) None by (rule inv_addModel)
    have c1: "map_of (containers ?s1) k = Some c"
      using Cons.prems(2) by (simp add: addModel_fields(1) [OF None] map_of_append_Some)
    have "renderable c \<noteq> next_ref s" using tracked_ref(1) [OF Cons.prems(1,2)] by simp
    then have o1: "store ?s1 (renderable c) = Some obj"
      using Cons.prems(3) by (simp add: addModel_fields(4) [OF None])
    have e: "setModels_each (m # ms) s = setModels_each ms ?s1" using None by simp
    have t: "transforms_for k (m # ms) = transforms_for k ms" using ne by (simp add: transforms_for_def)
    show ?thesis unfolding e t using Cons.IH [OF i1 c1 o1] .
  next
    case (Some c')
    let ?s1 = "updateModel c' m s"
    have i1: "state_inv ?s1" using Cons.prems(1) by (rule inv_updateModel)
    have c1: "map_of (containers ?s1) k = Some c"
      using Cons.prems(2) by (simp add: updateModel_fields)
    have e: "setModels_each (m # ms) s = setModels_each ms ?s1" using Some by simp
    show ?thesis
    proof (cases "blobUrl m = k")
      case True
      with Some Cons.prems(2) have cc: "c' = c" by simp
      have o1: "store ?s1 (renderable c) = Some (set_transform (modelMatrix m) obj)"
        using Cons.prems(3) by (simp add: updateModel_def cc set_transform_def)
      have t: "transforms_for k (m # ms) = modelMatrix m # transforms_for k ms"
        using True by (simp add: transforms_for_def)
      show ?thesis unfolding e t using Cons.IH [OF i1 c1 o1] by simp
    next
      case False
      from tracked_ref_distinct [OF Cons.prems(1,2) Some False]
      have "renderable c' \<noteq> renderable c" .
      then have o1: "store ?s1 (renderable c) = Some obj"
        using Cons.prems(3) by (simp add: updateModel_def split: option.splits)
      have t: "transforms_for k (m # ms) = transforms_for k ms"
        using False by (simp add: transforms_for_def)
      show ?thesis unfolding e t using Cons.IH [OF i1 c1 o1] .
    qed
  qed
qed

lemma foldl_set_transform:
  "foldl (\<lambda>ob m. set_transform m ob) obj ts =
     (if ts = [] then obj else set_transform (last ts) obj)"
proof (induction ts arbitrary: obj)
  case Nil
  then show ?case by simp
next
  case (Cons t ts)
  then show ?case by (simp add: set_transform_def)
qed

lemma setModels_each_all_tracked:
  assumes "\<forall>m \<in> set ms. blobUrl m \<in> fst ` set (containers s)"
  shows "this_sectorIdOffset (setModels_each ms s) = this_sectorIdOffset s
         \<and> containers (setModels_each ms s) = containers s"
  using assms
proof (induction ms arbitrary: s)
  case Nil
  then show ?case by simp
next
  case (Cons m ms)
  from Cons.prems have "blobUrl m \<in> fst ` set (containers s)" by simp
  then obtain c where c: "map_of (containers s) (blobUrl m) = Some c"
    by (metis map_of_eq_None_iff not_Some_eq)
  have e: "setModels_each (m # ms) s = setModels_each ms (updateModel c m s)" using c by simp
  have "\<forall>x \<in> set ms. blobUrl x \<in> fst ` set (containers (updateModel c m s))"
    using Cons.prems by (simp add: updateModel_fields)
  from Cons.IH [OF this] show ?case unfolding e by (simp add: updateModel_fields)
qed

text \<open>
  Claim C8. In every state an instance reaches, when \<^verbatim>\<open>setModels\<close> is called with an
  input that contains the key \<open>k\<close> of a tracked container \<open>c\<close>, the call succeeds and
  afterwards \<open>k\<close> is tracked by the same container record (same model record, sector list,
  id offset and proxy group); the proxy group has the same mesh, and its matrix and world
  matrix are the matrix of the last model of the input with key \<open>k\<close>. No id range is
  allocated for \<open>k\<close>: the running offset moves by the sector counts of the containers the
  call newly registers, \<open>k\<close> is not among them, and when every key of the input is tracked
  the running offset does not move.
\<close>

theorem tracked_model_only_transformed:
  assumes "run (constructor rs) calls = Inr s"
    and "map_of (containers s) k = Some c"
    and "k \<in> blobUrl ` set ms"
  shows "\<exists>s' obj obj'.
           setModels ms s = Inr s'
           \<and> map_of (containers s') k = Some c
           \<and> store s (renderable c) = Some obj
           \<and> store s' (renderable c) = Some obj'
           \<and> mesh obj' = mesh obj
           \<and> matrix obj' = last (transforms_for k ms)
           \<and> matrixWorld obj' = last (transforms_for k ms)
           \<and> k \<notin> fst ` set (newly_registered s s')
           \<and> ranges_cumulative (this_sectorIdOffset s) (newly_registered s s') (this_sectorIdOffset s')
           \<and> ((\<forall>m \<in> set ms. blobUrl m \<in> fst ` set (containers s))
                \<longrightarrow> this_sectorIdOffset s' = this_sectorIdOffset s)"
proof -
  from run_inv [OF inv_constructor assms(1)] have i: "state_inv s" by simp
  from tracked_ref(2) [OF i assms(2)] obtain obj where o: "store s (renderable c) = Some obj"
    by blast
  from setModels_effect [OF i, of ms] obtain s' where
    e: "setModels ms s = Inr s'"
    and cs: "containers s' = filter (\<lambda>kc. fst kc \<in> blobUrl ` set ms) (containers (setModels_each ms s))"
    and off: "this_sectorIdOffset s' = this_sectorIdOffset (setModels_each ms s)"
    and st: "store s' = store (setModels_each ms s)"
    by blast
  from setModels_each_tracked [OF i assms(2) o, of ms]
  have c1: "map_of (containers (setModels_each ms s)) k = Some c"
    and o1: "store (setModels_each ms s) (renderable c) =
               Some (foldl (\<lambda>ob m. set_transform m ob) obj (transforms_for k ms))"
    by auto
  have ne: "transforms_for k ms \<noteq> []"
    using assms(3) by (auto simp: transforms_for_def filter_empty_conv)
  let ?obj' = "set_transform (last (transforms_for k ms)) obj"
  have o': "store s' (renderable c) = Some ?obj'"
    using o1 ne by (simp add: st foldl_set_transform)
  have c': "map_of (containers s') k = Some c"
    unfolding cs using c1 assms(3)
    by (simp add: map_of_filter_key [where Q = "\<lambda>x. x \<in> blobUrl ` set ms"])
  have n: "(\<forall>m \<in> set ms. blobUrl m \<in> fst ` set (containers s))
             \<longrightarrow> this_sectorIdOffset s' = this_sectorIdOffset s"
    using setModels_each_all_tracked [of ms s] off by simp
  have kin: "k \<in> fst ` set (containers s)"
    using assms(2) by (metis map_of_eq_None_iff option.distinct(1))
  have nk: "k \<notin> fst ` set (newly_registered s s')"
  proof
    assume "k \<in> fst ` set (newly_registered s s')"
    then obtain kc where "kc \<in> set (newly_registered s s')" and "fst kc = k" by auto
    then have "k \<notin> fst ` set (containers s)" by (simp add: newly_registered_def)
    with kin show False by contradiction
  qed
  have cu: "ranges_cumulative (this_sectorIdOffset s) (newly_registered s s') (this_sectorIdOffset s')"
    using i e by (rule setModels_registered)
  have "mesh ?obj' = mesh obj" "matrix ?obj' = last (transforms_for k ms)"
    "matrixWorld ?obj' = last (transforms_for k ms)"
    by (simp_all add: set_transform_def)
  with e c' o o' n nk cu show ?thesis by blast
qed

theorem tracked_model_only_transformed_witness:
  "\<exists>s s' c obj obj'.
      run (constructor None) [SetModels [example_model ''a'' 1, example_model ''b'' 2]] = Inr s
      \<and> map_of (containers s) ''a'' = Some c
      \<and> setModels [moved_model] s = Inr s'
      \<and> map_of (containers s') ''a'' = Some c
      \<and> store s (renderable c) = Some obj
      \<and> store s' (renderable c) = Some obj'
      \<and> mesh obj' = mesh obj
      \<and> matrix obj = [1] \<and> matrix obj' = [2] \<and> matrixWorld obj' = [2]
      \<and> model c = example_model ''a'' 1
      \<and> this_sectorIdOffset s = 3 \<and> this_sectorIdOffset s' = 3"
proof -
  obtain s c where r: "run (constructor None) [SetModels [example_model ''a'' 1, example_model ''b'' 2]] = Inr s"
    and c: "map_of (containers s) ''a'' = Some c"
    and m: "model c = example_model ''a'' 1"
    and o: "\<exists>obj. store s (renderable c) = Some obj \<and> matrix obj = [1]"
    and n: "this_sectorIdOffset s = 3"
    and ks: "''a'' \<in> fst ` set (containers s)"
    by (simp add: eval_defs upt_rec)
  have k: "''a'' \<in> blobUrl ` set [moved_model]"
    by (simp add: moved_model_def example_model_def)
  have t: "last (transforms_for ''a'' [moved_model]) = [2]"
    by (simp add: transforms_for_def moved_model_def example_model_def)
  have a: "\<forall>m \<in> set [moved_model]. blobUrl m \<in> fst ` set (containers s)"
    using ks by (simp add: moved_model_def example_model_def)
  from tracked_model_only_transformed [OF r c k] a t n o m r c show ?thesis
    by (metis option.inject)
qed

subsection \<open>An id that no tracked model owns\<close>

lemma find_container_untracked:
  "\<not> list_ex (\<lambda>kc. in_range (snd kc) g) cs \<Longrightarrow> find_container cs g = Inl (OutOfRange g)"
  by (induction cs) (auto simp: in_range_def)

lemma map_throwing_fails:
  assumes "x \<in> set xs" and "f x = Inl e"
  shows "\<exists>x' e'. x' \<in> set xs \<and> f x' = Inl e' \<and> map_throwing f xs = Inl e'"
  using assms
proof (induction xs)
  case Nil
  then show ?case by simp
next
  case (Cons a xs)
  show ?case
  proof (cases "f a")
    case (Inl e')
    then show ?thesis by auto
  next
    case (Inr y)
    with Cons.prems have "x \<in> set xs" by auto
    from Cons.IH [OF this Cons.prems(2)] obtain x' e' where
      "x' \<in> set xs" "f x' = Inl e'" "map_throwing f xs = Inl e'" by blast
    with Inr show ?thesis by auto
  qed
qed

lemma to_prioritized_fails:
  "to_prioritized s t x = Inl e \<Longrightarrow> e = OutOfRange (sectorIdWithOffset x) \<and> \<not> tracked_id s (sectorIdWithOffset x)"
proof -
  have "find_container cs g = Inl e \<Longrightarrow> e = OutOfRange g \<and> \<not> list_ex (\<lambda>kc. in_range (snd kc) g) cs" for cs g
    by (induction cs) (auto simp: in_range_def split: if_splits)
  then show "to_prioritized s t x = Inl e \<Longrightarrow> e = OutOfRange (sectorIdWithOffset x) \<and> \<not> tracked_id s (sectorIdWithOffset x)"
    by (auto simp: to_prioritized_def findSectorContainer_def tracked_id_def split: sum.splits)
qed

lemmas decode_defs = decode_frame_def prepareBuffers_def readRenderTargetPixels_def
  unpackSectorVisibility_def unpack_pixel_def array_get_def array_set_def array_elements_def
  orderSectorsByVisibility_def rank_sectors_def to_prioritized_def findSectorContainer_def

lemma weight_fn_positive:
  assumes "x * x + y * y \<le> 5 / 2"
  shows "0 < weight_fn x y"
proof -
  have e: "0 < exp (- sqrt (x * x + y * y))" by simp
  have n: "0 \<le> 0.5 * (2.5 - (x * x + y * y))" using assms by simp
  from n e have "0 < 0.5 * (2.5 - (x * x + y * y)) + exp (- sqrt (x * x + y * y))"
    by (rule add_nonneg_pos)
  then show ?thesis by (simp only: weight_fn_def Let_def)
qed

lemma weight_fn_corner: "0 < weight_fn (-1) (-1)"
  by (rule weight_fn_positive) simp

text \<open>
  Claim C4 says that a sample whose id no tracked model owns is skipped and that the call
  still returns a list. \<^verbatim>\<open>findSectorContainer\<close> throws, nothing catches it, and the call
  ends with the error: here for the id of a model that was removed.
\<close>

theorem orphaned_id_ends_the_call:
  "\<exists>s. run (constructor (Some (1, 1))) [SetModels [example_model ''a'' 1], SetModels []] = Inr s
     \<and> fst (orderSectorsByVisibility s (\<lambda>i. 0)) = Inl (OutOfRange 0)"
proof -
  obtain s where r: "run (constructor (Some (1, 1))) [SetModels [example_model ''a'' 1], SetModels []] = Inr s"
    and c: "containers s = []" and b: "sectorVisibilityBuffer s = []" "rtBuffer s = []"
    and t: "renderTarget s = \<lparr> width = 1, height = 1, target_dispose_calls = 0 \<rparr>"
    by (simp add: eval_defs upt_rec)
  have "fst (orderSectorsByVisibility s (\<lambda>i. 0)) = Inl (OutOfRange 0)"
    using weight_fn_corner c b t by (simp add: decode_defs Let_def upt_rec)
  with r show ?thesis by blast
qed

text \<open>
  Claim C4, amended. If, after decoding, an entry of positive accumulated weight has an id
  that lies in no tracked container's range, \<^verbatim>\<open>orderSectorsByVisibility\<close> does not return
  a list: it ends with the out-of-range error for an id that no tracked container owns.
\<close>

theorem unresolvable_id_throws:
  assumes "x \<in> set (array_elements (sectorVisibilityBuffer (decode_frame s frame)))"
    and "0 < weight x"
    and "\<not> tracked_id s (sectorIdWithOffset x)"
  shows "\<exists>g. fst (orderSectorsByVisibility s frame) = Inl (OutOfRange g) \<and> \<not> tracked_id s g"
proof -
  let ?s' = "decode_frame s frame"
  let ?sv = "array_elements (sectorVisibilityBuffer ?s')"
  let ?t = "foldl (\<lambda>weight' x. weight x + weight') 0 ?sv"
  let ?xs = "sort_key (\<lambda>x. - weight x) (filter (\<lambda>x. weight x > 0) ?sv)"
  have tr: "tracked_id ?s' g = tracked_id s g" for g
    by (simp add: tracked_id_def decode_frame_fields)
  have m: "x \<in> set ?xs" using assms(1,2) by simp
  have "to_prioritized ?s' ?t x = Inl (OutOfRange (sectorIdWithOffset x))"
    using assms(3) find_container_untracked [of "sectorIdWithOffset x" "containers s"]
    by (simp add: to_prioritized_def findSectorContainer_def decode_frame_fields tracked_id_def)
  from map_throwing_fails [where f = "to_prioritized ?s' ?t", OF m this] obtain x' e' where
    f: "to_prioritized ?s' ?t x' = Inl e'" and r: "map_throwing (to_prioritized ?s' ?t) ?xs = Inl e'"
    by blast
  from to_prioritized_fails [OF f] have "e' = OutOfRange (sectorIdWithOffset x')"
    and "\<not> tracked_id s (sectorIdWithOffset x')" by (simp_all add: tr)
  with r show ?thesis
    by (auto simp: orderSectorsByVisibility_def rank_sectors_def Let_def)
qed

theorem unresolvable_id_throws_witness:
  "\<exists>s. run (constructor (Some (1, 1))) [SetModels [example_model ''a'' 1], SetModels []] = Inr s
     \<and> (\<exists>g. fst (orderSectorsByVisibility s (\<lambda>i. 0)) = Inl (OutOfRange g) \<and> \<not> tracked_id s g)"
proof -
  obtain s where r: "run (constructor (Some (1, 1))) [SetModels [example_model ''a'' 1], SetModels []] = Inr s"
    and c: "containers s = []" and b: "sectorVisibilityBuffer s = []" "rtBuffer s = []"
    and t: "renderTarget s = \<lparr> width = 1, height = 1, target_dispose_calls = 0 \<rparr>"
    by (simp add: eval_defs upt_rec)
  let ?x = "\<lparr> sectorIdWithOffset = 0, weight = weight_fn (-1) (-1), distance = 0 \<rparr>"
  have 1: "?x \<in> set (array_elements (sectorVisibilityBuffer (decode_frame s (\<lambda>i. 0))))"
    using b t by (simp add: decode_defs Let_def upt_rec)
  have 2: "0 < weight ?x" using weight_fn_corner by simp
  have 3: "\<not> tracked_id s (sectorIdWithOffset ?x)" using c by (simp add: tracked_id_def)
  from unresolvable_id_throws [OF 1 2 3] r show ?thesis by blast
qed

subsection \<open>Resolving ids of tracked models\<close>

lemma run_catching_inv:
  assumes "state_inv s"
  shows "\<exists>s'. run_catching s cs = Inr s' \<and> state_inv s'"
  using assms
proof (induction cs arbitrary: s)
  case Nil
  then show ?case by simp
next
  case (Cons c cs)
  show ?case
  proof (cases c)
    case (SetModels ms)
    from setModels_effect [OF Cons.prems, of ms] obtain s1 where
      "setModels ms s = Inr s1" and "state_inv s1" by blast
    with Cons.IH [of s1] SetModels show ?thesis by simp
  next
    case (OrderSectorsByVisibility f)
    have "state_inv (snd (orderSectorsByVisibility s f))"
      using Cons.prems by (simp add: orderSectorsByVisibility_def Let_def inv_decode_frame)
    with Cons.IH OrderSectorsByVisibility show ?thesis by simp
  next
    case CreateDebugCanvas
    show ?thesis
    proof (cases "createDebugCanvas s")
      case (Inl e)
      with Cons.IH [OF Cons.prems] CreateDebugCanvas show ?thesis by simp
    next
      case (Inr s1)
      then have "s1 = s\<lparr> debugRenderer := Some \<lparr> renderer_dispose_calls = 0 \<rparr> \<rparr>"
        by (auto simp: createDebugCanvas_def split: option.splits)
      then have "state_inv s1" using Cons.prems by (simp add: state_inv_def)
      with Cons.IH [of s1] Inr CreateDebugCanvas show ?thesis by simp
    qed
  qed
qed

lemma map_throwing_all:
  assumes "\<forall>x \<in> set xs. f x = Inr (g x)"
  shows "map_throwing f xs = Inr (map g xs)"
  using assms by (induction xs) simp_all

lemma tracked_found:
  assumes "state_inv s" and "tracked_id s g"
  shows "\<exists>c. find_container (containers s) g = Inr c"
proof -
  from assms(2) obtain kc where kc: "kc \<in> set (containers s)" and r: "in_range (snd kc) g"
    by (auto simp: tracked_id_def list_ex_iff)
  have ch: "ranges_chain 0 (containers s) (this_sectorIdOffset s)"
    using assms(1) by (simp add: state_inv_def)
  have "(fst kc, snd kc) \<in> set (containers s)" using kc by simp
  from find_in_chain [OF ch this] r show ?thesis by (auto simp: in_range_def)
qed

text \<open>
  Claim C6. Every sequence of calls on a new instance, also one whose queries or repeated
  \<^verbatim>\<open>createDebugCanvas\<close> calls threw and were caught, leaves the instance in a state \<open>s\<close>
  where, for every picture:
  \<^item> for a tracked container and a global id \<open>g\<close> in its range,
    \<^verbatim>\<open>findSectorContainer\<close> as called during \<^verbatim>\<open>orderSectorsByVisibility\<close> returns that
    container;
  \<^item> when the id of every sample that survives the weight filter is in the range of
    some tracked container, \<^verbatim>\<open>orderSectorsByVisibility\<close> returns a list with one entry
    per surviving sample, in their order, and the entry of a sample whose id \<open>g\<close> lies
    in the range of the tracked container \<open>c\<close> names the model of \<open>c\<close> and the local id
    \<open>g - sectorIdOffset c\<close> (with the sample's weight over the total weight as priority
    and the sample's distance as depth).
\<close>

theorem query_resolves_tracked_ids:
  "\<exists>s. run_catching (constructor rs) calls = Inr s
     \<and> (\<forall>kc \<in> set (containers s). \<forall>g. in_range (snd kc) g
           \<longrightarrow> findSectorContainer (decode_frame s frame) g = Inr (snd kc))
     \<and> ((\<forall>x \<in> set (surviving s frame). tracked_id s (sectorIdWithOffset x))
          \<longrightarrow> (\<exists>res. fst (orderSectorsByVisibility s frame) = Inr res
                \<and> length res = length (surviving s frame)
                \<and> (\<forall>i < length res. \<forall>kc \<in> set (containers s).
                      in_range (snd kc) (sectorIdWithOffset (surviving s frame ! i))
                      \<longrightarrow> res ! i = entry_of (snd kc) (total_weight s frame) (surviving s frame ! i))))"
proof -
  from run_catching_inv [OF inv_constructor] obtain s where
    r: "run_catching (constructor rs) calls = Inr s" and i: "state_inv s" by blast
  let ?s' = "decode_frame s frame"
  let ?t = "total_weight s frame"
  let ?xs = "surviving s frame"
  let ?g = "\<lambda>x. entry_of (projr (find_container (containers s) (sectorIdWithOffset x))) ?t x"
  have ch: "ranges_chain 0 (containers s) (this_sectorIdOffset s)"
    using i by (simp add: state_inv_def)
  have found: "find_container (containers s) g = Inr (snd kc)"
    if "kc \<in> set (containers s)" and "in_range (snd kc) g" for kc g
  proof -
    have "(fst kc, snd kc) \<in> set (containers s)" using that(1) by simp
    from find_in_chain [OF ch this] that(2) show ?thesis by (simp add: in_range_def)
  qed
  have a: "\<forall>kc \<in> set (containers s). \<forall>g. in_range (snd kc) g
           \<longrightarrow> findSectorContainer ?s' g = Inr (snd kc)"
    using found by (simp add: findSectorContainer_def decode_frame_fields)
  have rk: "fst (orderSectorsByVisibility s frame) = map_throwing (to_prioritized ?s' ?t) ?xs"
    by (simp add: orderSectorsByVisibility_def rank_sectors_def Let_def surviving_def total_weight_def)
  have b: "\<exists>res. fst (orderSectorsByVisibility s frame) = Inr res
                \<and> length res = length ?xs
                \<and> (\<forall>i < length res. \<forall>kc \<in> set (containers s).
                      in_range (snd kc) (sectorIdWithOffset (?xs ! i))
                      \<longrightarrow> res ! i = entry_of (snd kc) ?t (?xs ! i))"
    if all: "\<forall>x \<in> set ?xs. tracked_id s (sectorIdWithOffset x)"
  proof -
    have "\<forall>x \<in> set ?xs. to_prioritized ?s' ?t x = Inr (?g x)"
    proof
      fix x assume "x \<in> set ?xs"
      with all have "tracked_id s (sectorIdWithOffset x)" by blast
      from tracked_found [OF i this] obtain c where
        "find_container (containers s) (sectorIdWithOffset x) = Inr c" by blast
      then show "to_prioritized ?s' ?t x = Inr (?g x)"
        by (simp add: to_prioritized_def findSectorContainer_def decode_frame_fields entry_of_def)
    qed
    then have res: "fst (orderSectorsByVisibility s frame) = Inr (map ?g ?xs)"
      unfolding rk by (rule map_throwing_all)
    have "map ?g ?xs ! i = entry_of (snd kc) ?t (?xs ! i)"
      if "i < length (map ?g ?xs)" and "kc \<in> set (containers s)"
        and "in_range (snd kc) (sectorIdWithOffset (?xs ! i))" for i kc
      using that(1) found [OF that(2,3)] by simp
    with res show ?thesis by (intro exI [of _ "map ?g ?xs"]) simp
  qed
  from r a b show ?thesis by blast
qed

text \<open>Two models of one sector each, registered after a query that threw: a picture of
  the global id 1 returns one entry, sector 0 of the second model.\<close>

theorem query_resolves_tracked_ids_witness:
  "\<exists>s. run_catching (constructor (Some (1, 1)))
          [CreateDebugCanvas, CreateDebugCanvas, OrderSectorsByVisibility (\<lambda>i. 0),
           SetModels [example_model ''model1'' 1, example_model ''model2'' 1]] = Inr s
     \<and> surviving s second_frame =
          [\<lparr> sectorIdWithOffset = 1, weight = weight_fn (-1) (-1), distance = 255 \<rparr>]
     \<and> findSectorContainer (decode_frame s second_frame) 1 = Inr second_model_container
     \<and> fst (orderSectorsByVisibility s second_frame) =
          Inr [\<lparr> entry_model = example_model ''model2'' 1, sectorId = 0, priority = 1, depth = 255 \<rparr>]"
proof -
  let ?calls = "[CreateDebugCanvas, CreateDebugCanvas, OrderSectorsByVisibility (\<lambda>i. 0),
           SetModels [example_model ''model1'' 1, example_model ''model2'' 1]]"
  let ?x = "\<lparr> sectorIdWithOffset = 1, weight = weight_fn (-1) (-1), distance = 255 \<rparr>"
  have nz: "weight_fn (-1) (-1) \<noteq> 0" using weight_fn_corner by simp
  let ?s0 = "decode_frame ((constructor (Some (1, 1)))\<lparr> debugRenderer := Some \<lparr> renderer_dispose_calls = 0 \<rparr> \<rparr>) (\<lambda>i. 0)"
  have r0: "run_catching (constructor (Some (1, 1))) ?calls
              = run_catching ?s0 [SetModels [example_model ''model1'' 1, example_model ''model2'' 1]]"
    by (simp add: createDebugCanvas_def constructor_def orderSectorsByVisibility_def Let_def)
  have b0: "sectorVisibilityBuffer ?s0 =
      [Some \<lparr> sectorIdWithOffset = 0, weight = weight_fn (-1) (-1), distance = 0 \<rparr>]"
    "rtBuffer ?s0 = [0, 0, 0, 0]"
    "renderTarget ?s0 = \<lparr> width = 1, height = 1, target_dispose_calls = 0 \<rparr>"
    "containers ?s0 = []" "this_sectorIdOffset ?s0 = 0" "next_ref ?s0 = 0"
    by (simp_all add: decode_frame_def prepareBuffers_def readRenderTargetPixels_def
      unpackSectorVisibility_def unpack_pixel_def array_get_def array_set_def Let_def upt_rec
      constructor_def)
  obtain s c1 where r1: "run_catching ?s0 [SetModels [example_model ''model1'' 1, example_model ''model2'' 1]] = Inr s"
    and c: "containers s = [(''model1'', c1), (''model2'', second_model_container)]"
    and c1: "sectorIdOffset c1 = 0" "length (sectors c1) = 1"
    and b: "sectorVisibilityBuffer s =
      [Some \<lparr> sectorIdWithOffset = 0, weight = weight_fn (-1) (-1), distance = 0 \<rparr>]"
      "rtBuffer s = [0, 0, 0, 0]"
      "renderTarget s = \<lparr> width = 1, height = 1, target_dispose_calls = 0 \<rparr>"
    using b0
    by (simp add: setModels_def addModel_def removeModel_def map_delete_def Let_def
        example_model_def second_model_container_def upt_rec)
  have r: "run_catching (constructor (Some (1, 1))) ?calls = Inr s" using r0 r1 by simp
  have d: "sectorVisibilityBuffer (decode_frame s second_frame) =
      [Some \<lparr> sectorIdWithOffset = 0, weight = 0, distance = 0 \<rparr>, Some ?x]"
    using b
    by (simp add: decode_frame_def prepareBuffers_def readRenderTargetPixels_def
      unpackSectorVisibility_def unpack_pixel_def array_get_def array_set_def Let_def upt_rec
      second_frame_def)
  have sv: "surviving s second_frame = [?x]"
    using weight_fn_corner by (simp add: surviving_def d array_elements_def)
  have tw: "total_weight s second_frame = weight_fn (-1) (-1)"
    by (simp add: total_weight_def d array_elements_def)
  have m: "(''model2'', second_model_container) \<in> set (containers s)" by (simp add: c)
  have ir: "in_range second_model_container 1"
    by (simp add: in_range_def second_model_container_def)
  have tr: "\<forall>x \<in> set (surviving s second_frame). tracked_id s (sectorIdWithOffset x)"
    using ir by (simp add: sv tracked_id_def c)
  from query_resolves_tracked_ids [of "Some (1, 1)" ?calls second_frame] r
  have f: "\<forall>kc \<in> set (containers s). \<forall>g. in_range (snd kc) g
           \<longrightarrow> findSectorContainer (decode_frame s second_frame) g = Inr (snd kc)"
    and q: "(\<forall>x \<in> set (surviving s second_frame). tracked_id s (sectorIdWithOffset x))
          \<longrightarrow> (\<exists>res. fst (orderSectorsByVisibility s second_frame) = Inr res
                \<and> length res = length (surviving s second_frame)
                \<and> (\<forall>i < length res. \<forall>kc \<in> set (containers s).
                      in_range (snd kc) (sectorIdWithOffset (surviving s second_frame ! i))
                      \<longrightarrow> res ! i = entry_of (snd kc) (total_weight s second_frame) (surviving s second_frame ! i)))"
    by auto
  from q tr obtain res where
    o: "fst (orderSectorsByVisibility s second_frame) = Inr res"
    and l: "length res = length (surviving s second_frame)"
    and e: "\<forall>i < length res. \<forall>kc \<in> set (containers s).
                      in_range (snd kc) (sectorIdWithOffset (surviving s second_frame ! i))
                      \<longrightarrow> res ! i = entry_of (snd kc) (total_weight s second_frame) (surviving s second_frame ! i)"
    by blast
  have l1: "length res = 1" using l sv by simp
  have "res ! 0 = entry_of second_model_container (total_weight s second_frame) (surviving s second_frame ! 0)"
    using e l1 m ir by (simp add: sv)
  then have "res ! 0 = \<lparr> entry_model = example_model ''model2'' 1, sectorId = 0, priority = 1, depth = 255 \<rparr>"
    using nz by (simp add: sv tw entry_of_def second_model_container_def)
  with l1 have "res = [\<lparr> entry_model = example_model ''model2'' 1, sectorId = 0, priority = 1, depth = 255 \<rparr>]"
    by (cases res) simp_all
  moreover have "findSectorContainer (decode_frame s second_frame) 1 = Inr second_model_container"
    using f m ir by (metis snd_conv)
  ultimately show ?thesis using r sv o by blast
qed

subsection \<open>Rounding to single precision\<close>

text \<open>Numbers of at most 24 significant bits are kept as they are; \<open>1 / 10\<close> and
  \<open>2 ^ 24 + 1\<close> are not.\<close>

lemma round_half_even_int: "round_half_even (of_int m) = m"
  by (simp add: round_half_even_def)

lemma float32_exponent_eq:
  assumes "2 powr of_int e \<le> \<bar>x\<bar>" and "\<bar>x\<bar> < 2 powr of_int (e + 1)" and "- 126 \<le> e"
  shows "float32_exponent x = e"
proof -
  have "0 < \<bar>x\<bar>" using assms(1) by (smt (verit) powr_gt_zero)
  then have "\<lfloor>log 2 \<bar>x\<bar>\<rfloor> = e" using assms(1,2) by (simp add: floor_log_eq_powr_iff)
  then show ?thesis using assms(3) by (simp add: float32_exponent_def)
qed

lemma fround_tenth: "fround (1 / 10) = Float32 (13421773 / 2 ^ 27)"
proof -
  have e: "float32_exponent (1 / 10) = - 4"
    by (rule float32_exponent_eq) (simp_all add: powr_minus_divide)
  have u: "(2::real) powr of_int (- 4 - 23) = 1 / 2 ^ 27"
    by (simp add: powr_minus_divide)
  have r: "round_half_even ((1 / 10) / (1 / 2 ^ 27)) = 13421773"
  proof -
    have "\<lfloor>(1 / 10) / (1 / 2 ^ 27 :: real)\<rfloor> = 13421772" by (rule floor_unique) simp_all
    then show ?thesis by (simp add: round_half_even_def Let_def)
  qed
  show ?thesis unfolding fround_def e u Let_def r by simp
qed

lemma fround_2p24_plus_1: "fround 16777217 = Float32 16777216"
proof -
  have e: "float32_exponent 16777217 = 24"
    by (rule float32_exponent_eq) (simp_all add: powr_realpow [of 2 24, simplified] powr_realpow [of 2 25, simplified])
  have u: "(2::real) powr of_int (24 - 23) = 2" by simp
  have r: "round_half_even (16777217 / 2) = 8388608"
  proof -
    have "\<lfloor>16777217 / 2 :: real\<rfloor> = 8388608" by (rule floor_unique) simp_all
    then show ?thesis by (simp add: round_half_even_def Let_def)
  qed
  show ?thesis unfolding fround_def e u Let_def r by simp
qed

lemma fround_exact:
  assumes x: "x = of_int m * 2 powr of_int k"
    and m: "\<bar>m\<bar> < 2 ^ 24" and k: "- 149 \<le> k" "k \<le> 104"
  shows "fround x = Float32 x"
proof (cases "x = 0")
  case True
  then show ?thesis by (simp add: fround_def)
next
  case False
  define e where "e = float32_exponent x"
  define j where "j = k - (e - 23)"
  have pos: "0 < \<bar>x\<bar>" using False by simp
  have "\<bar>x\<bar> = of_int \<bar>m\<bar> * 2 powr of_int k" by (simp add: x abs_mult)
  also have "\<dots> < 2 ^ 24 * 2 powr of_int k"
  proof -
    have "(of_int \<bar>m\<bar> :: real) < 2 ^ 24" using m by (metis of_int_less_numeral_power_cancel_iff)
    then show ?thesis by simp
  qed
  also have "\<dots> = 2 powr of_int (24 + k)"
    by (simp add: powr_add powr_realpow [of 2 24, simplified])
  finally have ub: "\<bar>x\<bar> < 2 powr of_int (24 + k)" .
  have "log 2 \<bar>x\<bar> < of_int (24 + k)"
    using ub pos by (metis less_powr_iff one_less_numeral_iff semiring_norm(76))
  then have "\<lfloor>log 2 \<bar>x\<bar>\<rfloor> < 24 + k" by (simp add: floor_less_iff)
  then have j0: "0 \<le> j" using k(1) by (simp add: j_def e_def float32_exponent_def)
  have split: "(2::real) powr of_int k = 2 powr of_int j * 2 powr of_int (e - 23)"
    by (simp add: j_def flip: powr_add)
  have pj: "(2::real) powr of_int j = of_int (2 ^ nat j)"
    using j0 by (simp add: powr_int)
  have q: "x / 2 powr of_int (e - 23) = of_int (m * 2 ^ nat j)"
    unfolding x split by (simp add: pj)
  have y: "of_int (round_half_even (x / 2 powr of_int (e - 23))) * 2 powr of_int (e - 23) = x"
    unfolding q round_half_even_int using q by (simp add: field_simps)
  have "real_of_int (24 + k) \<le> real 128" using k(2) by simp
  then have "(2::real) powr of_int (24 + k) \<le> 2 powr real 128"
    by (rule powr_mono) simp
  also have "\<dots> = 2 ^ 128" by (rule powr_realpow) simp
  finally have "\<bar>x\<bar> < 2 ^ 128" using ub by simp
  then show ?thesis using False y by (simp add: fround_def Let_def e_def)
qed

lemma fround_nat:
  assumes "n < 2 ^ 24"
  shows "fround (real n) = Float32 (real n)"
proof -
  have "\<bar>int n\<bar> < 2 ^ 24" using assms by (metis abs_of_nat of_nat_less_numeral_power_cancel_iff)
  then show ?thesis by (intro fround_exact [where m = "int n" and k = 0]) simp_all
qed

lemma fround_eighth: "fround (1 / 8) = Float32 (1 / 8)"
  by (rule fround_exact [where m = 1 and k = "- 3"]) (simp_all add: powr_minus_divide)

lemma fround_zero: "fround 0 = Float32 0"
  by (simp add: fround_def)

lemma fround_quarter: "fround (1 / 4) = Float32 (1 / 4)"
  by (rule fround_exact [where m = 1 and k = "- 2"]) (simp_all add: powr_minus_divide)

lemma fround_half: "fround (1 / 2) = Float32 (1 / 2)"
  by (rule fround_exact [where m = 1 and k = "- 1"]) (simp_all add: powr_minus_divide)

lemma fround_twentieth: "fround (1 / 20) = Float32 (13421773 / 2 ^ 28)"
proof -
  have e: "float32_exponent (1 / 20) = - 5"
    by (rule float32_exponent_eq) (simp_all add: powr_minus_divide)
  have u: "(2::real) powr of_int (- 5 - 23) = 1 / 2 ^ 28"
    by (simp add: powr_minus_divide)
  have r: "round_half_even ((1 / 20) / (1 / 2 ^ 28)) = 13421773"
  proof -
    have "\<lfloor>(1 / 20) / (1 / 2 ^ 28 :: real)\<rfloor> = 13421772" by (rule floor_unique) simp_all
    then show ?thesis by (simp add: round_half_even_def Let_def)
  qed
  show ?thesis unfolding fround_def e u Let_def r by simp
qed

subsection \<open>The instances of a newly registered model\<close>

lemma forEach_sector_sized: "mesh_sized n m \<Longrightarrow> mesh_sized n (forEach_sector off m sec)"
  by (simp add: mesh_sized_def forEach_sector_def addSector_def typed_set_def Let_def)

lemma forEach_sector_at:
  assumes "mesh_sized n m" and "sector_id sec < n"
  shows "instance_at (forEach_sector off m sec) i =
           (if i = sector_id sec then sector_instance off sec else instance_at m i)"
  using assms
  by (auto simp: mesh_sized_def forEach_sector_def addSector_def typed_set_def Let_def
      instance_at_def sector_instance_def nth_list_update)

lemma forEach_sector_ignored:
  assumes "mesh_sized n m" and "\<not> sector_id sec < n"
  shows "forEach_sector off m sec = m"
  using assms
  by (simp add: mesh_sized_def forEach_sector_def addSector_def typed_set_def Let_def)

lemma forEach_sector_other:
  assumes "mesh_sized n m" and "i \<noteq> sector_id sec"
  shows "instance_at (forEach_sector off m sec) i = instance_at m i"
proof (cases "sector_id sec < n")
  case True
  with assms show ?thesis by (simp add: forEach_sector_at)
next
  case False
  with assms show ?thesis by (simp add: forEach_sector_ignored)
qed

lemma foldl_sized: "mesh_sized n m \<Longrightarrow> mesh_sized n (foldl (forEach_sector off) m secs)"
  by (induction secs arbitrary: m) (simp_all add: forEach_sector_sized)

lemma foldl_other:
  assumes "mesh_sized n m" and "i \<notin> sector_id ` set secs"
  shows "instance_at (foldl (forEach_sector off) m secs) i = instance_at m i"
  using assms
proof (induction secs arbitrary: m)
  case Nil
  then show ?case by simp
next
  case (Cons a secs)
  then have "instance_at (foldl (forEach_sector off) (forEach_sector off m a) secs) i
               = instance_at (forEach_sector off m a) i"
    by (simp add: forEach_sector_sized)
  also have "\<dots> = instance_at m i" using Cons.prems by (simp add: forEach_sector_other)
  finally show ?case by simp
qed

lemma foldl_at:
  assumes "mesh_sized n m" and "sec \<in> set secs" and "sector_id sec < n"
    and "\<forall>sec' \<in> set secs. sector_id sec' = sector_id sec \<longrightarrow> sec' = sec"
  shows "instance_at (foldl (forEach_sector off) m secs) (sector_id sec) = sector_instance off sec"
  using assms(1,2,4)
proof (induction secs arbitrary: m)
  case Nil
  then show ?case by simp
next
  case (Cons a secs)
  have sz: "mesh_sized n (forEach_sector off m a)" using Cons.prems(1) by (rule forEach_sector_sized)
  have u: "\<forall>sec' \<in> set secs. sector_id sec' = sector_id sec \<longrightarrow> sec' = sec"
    using Cons.prems(3) by simp
  show ?case
  proof (cases "sec \<in> set secs")
    case True
    from Cons.IH [OF sz True u] show ?thesis by simp
  next
    case False
    with Cons.prems(2) have a: "a = sec" by simp
    have "sector_id sec \<notin> sector_id ` set secs" using False u by auto
    from foldl_other [OF sz this]
    have "instance_at (foldl (forEach_sector off) (forEach_sector off m a) secs) (sector_id sec)
            = instance_at (forEach_sector off m sec) (sector_id sec)"
      by (simp add: a)
    also have "\<dots> = sector_instance off sec"
      using Cons.prems(1) assms(3) by (simp add: forEach_sector_at)
    finally show ?thesis by simp
  qed
qed

text \<open>
  Claim C7 says that the local id of an instance is the position of its sector in the
  sector list. \<^verbatim>\<open>createSectorTreeMesh\<close> addresses the instance by the sector's own
  \<^verbatim>\<open>id\<close>: in a list that is not in id order, instance 0 carries the coverage factors
  of the sector whose id is 0, not those of the sector at position 0.
\<close>

theorem instance_not_at_list_position:
  "\<exists>c obj.
      map_of (containers (addModel reordered_model (constructor None))) ''r'' = Some c
      \<and> store (addModel reordered_model (constructor None)) (renderable c) = Some obj
      \<and> fst (instance_at (mesh obj) 0) = (Float32 0, Float32 (1 / 8), Float32 (1 / 4), Float32 (1 / 2))
      \<and> coverageFactors (sectors c ! 0) = \<lparr> xy = 1, xz = 1, yz = 1 \<rparr>"
  by (simp add: eval_defs reordered_model_def instance_at_def fround_zero fround_eighth
      fround_quarter fround_half)

text \<open>
  Claim C7, amended. When \<^verbatim>\<open>setModels\<close> meets a model whose key is not tracked, it
  registers it with \<^verbatim>\<open>addModel\<close>: the new container has the running offset as its id
  offset, and its mesh has as many instances as the model has sectors. For every sector
  of the model whose id is below the sector count and is the id of no other sector of the
  list, the instance numbered by the sector's id holds, each rounded to single precision
  by the store into the \<^verbatim>\<open>Float32Array\<close>: the id offset plus that id, the coverage
  factors \<open>(yz, xz, xy)\<close> of the sector, and the centre and size of its bounds. The id
  offset plus the id is held exactly when it is below \<open>2 ^ 24\<close>.
\<close>

theorem proxy_instance_per_sector_id:
  assumes "map_of (containers s) (blobUrl m) = None"
    and "sec \<in> set (scene_getAllSectors m)"
    and "sector_id sec < length (scene_getAllSectors m)"
    and "\<forall>sec' \<in> set (scene_getAllSectors m). sector_id sec' = sector_id sec \<longrightarrow> sec' = sec"
  shows "\<exists>c obj.
           setModels_each [m] s = addModel m s
           \<and> map_of (containers (addModel m s)) (blobUrl m) = Some c
           \<and> sectors c = scene_getAllSectors m
           \<and> sectorIdOffset c = this_sectorIdOffset s
           \<and> store (addModel m s) (renderable c) = Some obj
           \<and> mesh_sized (length (sectors c)) (mesh obj)
           \<and> instance_at (mesh obj) (sector_id sec) = sector_instance (sectorIdOffset c) sec
           \<and> (sectorIdOffset c + sector_id sec < 2 ^ 24
                \<longrightarrow> fst (fst (instance_at (mesh obj) (sector_id sec)))
                      = Float32 (real (sectorIdOffset c + sector_id sec)))"
proof -
  let ?secs = "scene_getAllSectors m"
  let ?c = "\<lparr> model = m, sectors = ?secs, sectorIdOffset = this_sectorIdOffset s,
              renderable = next_ref s \<rparr>"
  let ?obj = "createSectorTreeMesh (this_sectorIdOffset s) ?secs (modelMatrix m)"
  let ?m0 = "\<lparr> instance_count = length ?secs, instanceMatrix = replicate (length ?secs) None,
               instanceValues = replicate (4 * length ?secs) (Float32 0) \<rparr>"
  have e: "setModels_each [m] s = addModel m s" using assms(1) by simp
  have c: "map_of (containers (addModel m s)) (blobUrl m) = Some ?c"
    by (simp add: addModel_def Let_def map_of_map_set)
  have o: "store (addModel m s) (renderable ?c) = Some ?obj"
    by (simp add: addModel_def Let_def)
  have z: "mesh_sized (length ?secs) ?m0" by (simp add: mesh_sized_def)
  have me: "mesh ?obj = foldl (forEach_sector (this_sectorIdOffset s)) ?m0 ?secs"
    by (simp add: createSectorTreeMesh_def Let_def)
  have sz: "mesh_sized (length (sectors ?c)) (mesh ?obj)"
    unfolding me using foldl_sized [OF z] by simp
  have at: "instance_at (mesh ?obj) (sector_id sec) = sector_instance (sectorIdOffset ?c) sec"
    unfolding me using foldl_at [OF z assms(2,3,4)] by simp
  have ex: "sectorIdOffset ?c + sector_id sec < 2 ^ 24
              \<longrightarrow> fst (fst (instance_at (mesh ?obj) (sector_id sec)))
                    = Float32 (real (sectorIdOffset ?c + sector_id sec))"
    unfolding at by (simp add: sector_instance_def fround_nat del: of_nat_add)
  from e c o sz at ex show ?thesis by (intro exI [of _ ?c] exI [of _ ?obj]) simp
qed

text \<open>A model registered at offset 3, with decimal coverage and bounds: the sector of id 1
  is instance 1, its id with offset is held exactly, and \<open>1 / 10\<close> is held as
  \<open>13421773 / 2 ^ 27\<close>.\<close>

theorem proxy_instance_per_sector_id_witness:
  "\<exists>c obj.
      map_of (containers (addModel decimal_model (addModel (example_model ''z'' 3) (constructor None)))) ''d'' = Some c
      \<and> sectorIdOffset c = 3
      \<and> store (addModel decimal_model (addModel (example_model ''z'' 3) (constructor None))) (renderable c) = Some obj
      \<and> instance_count (mesh obj) = 2
      \<and> instance_at (mesh obj) 1 =
            ((Float32 4, Float32 (1 / 8), Float32 (1 / 4), Float32 (13421773 / 2 ^ 27)),
             Some ((Float32 (13421773 / 2 ^ 28), Float32 (13421773 / 2 ^ 28), Float32 (13421773 / 2 ^ 28)),
                   (Float32 (13421773 / 2 ^ 27), Float32 (13421773 / 2 ^ 27), Float32 (13421773 / 2 ^ 27))))"
proof -
  let ?s = "addModel (example_model ''z'' 3) (constructor None)"
  let ?m = "decimal_model"
  have 1: "map_of (containers ?s) (blobUrl ?m) = None"
    by (simp add: eval_defs decimal_model_def)
  have 2: "decimal_sector 1 \<in> set (scene_getAllSectors ?m)"
    by (simp add: decimal_model_def)
  have 3: "sector_id (decimal_sector 1) < length (scene_getAllSectors ?m)"
    by (simp add: decimal_model_def decimal_sector_def)
  have 4: "\<forall>sec' \<in> set (scene_getAllSectors ?m).
             sector_id sec' = sector_id (decimal_sector 1) \<longrightarrow> sec' = decimal_sector 1"
    by (simp add: decimal_model_def decimal_sector_def)
  have 5: "this_sectorIdOffset ?s = 3" by (simp add: eval_defs)
  have 6: "snd (sector_instance 3 (decimal_sector 1)) =
      Some ((Float32 (13421773 / 2 ^ 28), Float32 (13421773 / 2 ^ 28), Float32 (13421773 / 2 ^ 28)),
            (Float32 (13421773 / 2 ^ 27), Float32 (13421773 / 2 ^ 27), Float32 (13421773 / 2 ^ 27)))"
    using fround_tenth fround_twentieth
    by (simp add: sector_instance_def decimal_sector_def box_isEmpty_def box_center_def box_size_def
        fround3_def)
  have 7: "snd (fst (sector_instance 3 (decimal_sector 1))) =
      (Float32 (1 / 8), Float32 (1 / 4), Float32 (13421773 / 2 ^ 27))"
    using fround_tenth
    by (simp add: sector_instance_def decimal_sector_def fround_eighth fround_quarter)
  have 8: "blobUrl ?m = ''d''" "length (scene_getAllSectors ?m) = 2" "sector_id (decimal_sector 1) = 1"
    by (simp_all add: decimal_model_def decimal_sector_def)
  from proxy_instance_per_sector_id [OF 1 2 3 4] obtain c obj where
    c: "map_of (containers (addModel ?m ?s)) (blobUrl ?m) = Some c"
    and l: "sectors c = scene_getAllSectors ?m"
    and f: "sectorIdOffset c = this_sectorIdOffset ?s"
    and o: "store (addModel ?m ?s) (renderable c) = Some obj"
    and z: "mesh_sized (length (sectors c)) (mesh obj)"
    and a: "instance_at (mesh obj) (sector_id (decimal_sector 1)) = sector_instance (sectorIdOffset c) (decimal_sector 1)"
    and x: "sectorIdOffset c + sector_id (decimal_sector 1) < 2 ^ 24
              \<longrightarrow> fst (fst (instance_at (mesh obj) (sector_id (decimal_sector 1))))
                    = Float32 (real (sectorIdOffset c + sector_id (decimal_sector 1)))"
    by blast
  have n: "instance_count (mesh obj) = 2" using z by (simp add: mesh_sized_def l 8)
  have a1: "instance_at (mesh obj) 1 = sector_instance 3 (decimal_sector 1)"
    using a unfolding f 5 8 .
  have x1: "fst (fst (instance_at (mesh obj) 1)) = Float32 4"
    using x unfolding f 5 8 by simp
  have "instance_at (mesh obj) 1 =
            ((Float32 4, Float32 (1 / 8), Float32 (1 / 4), Float32 (13421773 / 2 ^ 27)),
             Some ((Float32 (13421773 / 2 ^ 28), Float32 (13421773 / 2 ^ 28), Float32 (13421773 / 2 ^ 28)),
                   (Float32 (13421773 / 2 ^ 27), Float32 (13421773 / 2 ^ 27), Float32 (13421773 / 2 ^ 27))))"
    using x1 6 7 unfolding a1 by (metis prod.collapse)
  moreover have "sectorIdOffset c = 3" using f 5 by simp
  moreover have "map_of (containers (addModel ?m ?s)) ''d'' = Some c" using c unfolding 8 .
  ultimately show ?thesis using o n by blast
qed

subsection \<open>The weight of a pixel\<close>

lemma weight_fn_upper: "weight_fn x y \<le> 0.5 * (2.5 - (x * x + y * y)) + 1"
proof -
  have "exp (- sqrt (x * x + y * y)) \<le> 1" by simp
  then show ?thesis by (simp only: weight_fn_def Let_def add_left_mono)
qed

lemma weight_fn_far: "weight_fn 5 (1 / 2) < - 10"
  using weight_fn_upper [of 5 "1 / 2"] by simp

lemma weight_fn_corner_upper: "weight_fn (-1) (-1) \<le> 5 / 4"
  using weight_fn_upper [of "-1" "-1"] by simp

lemma weight_fn_corner_less: "weight_fn (-1) (-1) < weight_fn 0 (-1)"
proof -
  have "(1::real) < sqrt 2" by (simp add: real_less_rsqrt)
  then have e: "exp (- sqrt 2) < exp (- (1::real))" by simp
  have "weight_fn (-1) (-1) = 1 / 4 + exp (- sqrt 2)" by (simp add: weight_fn_def Let_def)
  moreover have "weight_fn 0 (-1) = 3 / 4 + exp (- (1::real))" by (simp add: weight_fn_def Let_def)
  ultimately show ?thesis using e by linarith
qed

lemma tall_decoded:
  assumes "sectorVisibilityBuffer s = []" and "rtBuffer s = []"
    and "renderTarget s = \<lparr> width = 1, height = 4, target_dispose_calls = 0 \<rparr>"
  shows "sectorVisibilityBuffer (decode_frame s tall_frame) =
           [Some \<lparr> sectorIdWithOffset = 0, weight = weight_fn (-1) (-1), distance = 7 \<rparr>,
            Some \<lparr> sectorIdWithOffset = 1, weight = weight_fn 5 (1 / 2), distance = 9 \<rparr>]"
  using assms
  by (simp add: decode_frame_def prepareBuffers_def readRenderTargetPixels_def
      unpackSectorVisibility_def unpack_pixel_def array_get_def array_set_def Let_def upt_rec
      tall_frame_def)

lemma tall_ranked:
  assumes "sectorVisibilityBuffer s = []" and "rtBuffer s = []"
    and "renderTarget s = \<lparr> width = 1, height = 4, target_dispose_calls = 0 \<rparr>"
    and "containers s = [(''a'', c)]" and "sectorIdOffset c = 0" and "length (sectors c) = 2"
  shows "fst (orderSectorsByVisibility s tall_frame) =
           Inr [\<lparr> entry_model = model c, sectorId = 0,
                  priority = weight_fn (-1) (-1) / (weight_fn 5 (1 / 2) + weight_fn (-1) (-1)),
                  depth = 7 \<rparr>]"
proof -
  have n: "\<not> 0 < weight_fn 5 (1 / 2)" using weight_fn_far by simp
  show ?thesis
    using weight_fn_corner n assms(4,5,6)
    by (simp add: orderSectorsByVisibility_def rank_sectors_def tall_decoded [OF assms(1,2,3)]
        array_elements_def to_prioritized_def findSectorContainer_def decode_frame_fields Let_def)
qed

lemma tall_state:
  "\<exists>s c. run (constructor (Some (1, 4))) [SetModels [example_model ''a'' 2]] = Inr s
     \<and> sectorVisibilityBuffer s = [] \<and> rtBuffer s = []
     \<and> renderTarget s = \<lparr> width = 1, height = 4, target_dispose_calls = 0 \<rparr>
     \<and> containers s = [(''a'', c)] \<and> sectorIdOffset c = 0 \<and> length (sectors c) = 2
     \<and> model c = example_model ''a'' 2"
  by (simp add: eval_defs upt_rec)

text \<open>
  Claim C2 takes \<open>rx\<close> from the column \<open>x\<close>. The code computes \<open>rx\<close> from the row \<open>y\<close>:
  on a target 2 by 2, the pixel in column 1 of row 0 adds \<open>weight_fn (-1) (-1)\<close> to its
  sector, which is less than the weight at \<open>rx = (1 - 2/2) / (2/2)\<close>,
  \<open>ry = (0 - 2/2) / (2/2)\<close>.
\<close>

theorem weight_uses_row_for_rx:
  "sectorVisibilityBuffer (decode_frame (constructor (Some (2, 2))) corner_frame) =
     [Some \<lparr> sectorIdWithOffset = 0, weight = weight_fn (-1) (-1), distance = 255 \<rparr>]
   \<and> weight_fn (-1) (-1) < weight_fn ((1 - 2 / 2) / (2 / 2)) ((0 - 2 / 2) / (2 / 2))"
proof -
  have "sectorVisibilityBuffer (decode_frame (constructor (Some (2, 2))) corner_frame) =
     [Some \<lparr> sectorIdWithOffset = 0, weight = weight_fn (-1) (-1), distance = 255 \<rparr>]"
    by (simp add: decode_frame_def prepareBuffers_def readRenderTargetPixels_def
      unpackSectorVisibility_def unpack_pixel_def array_get_def array_set_def Let_def upt_rec
      corner_frame_def constructor_def)
  with weight_fn_corner_less show ?thesis by simp
qed

text \<open>
  Claim C1 says that the priorities of a result lie in \<open>[0, 1]\<close> and sum to 1. With \<open>rx\<close>
  taken from the row, a target higher than wide gives negative weights to its lower rows:
  on a target 1 wide and 4 high, with sector 0 in row 0 and sector 1 in row 3, the total
  weight is negative, and the single entry returned has a negative priority.
\<close>

theorem tall_target_negative_priority:
  "\<exists>s p. run (constructor (Some (1, 4))) [SetModels [example_model ''a'' 2]] = Inr s
     \<and> fst (orderSectorsByVisibility s tall_frame) =
         Inr [\<lparr> entry_model = example_model ''a'' 2, sectorId = 0, priority = p, depth = 7 \<rparr>]
     \<and> p < 0"
proof -
  from tall_state obtain s c where
    r: "run (constructor (Some (1, 4))) [SetModels [example_model ''a'' 2]] = Inr s"
    and a: "sectorVisibilityBuffer s = []" "rtBuffer s = []"
      "renderTarget s = \<lparr> width = 1, height = 4, target_dispose_calls = 0 \<rparr>"
      "containers s = [(''a'', c)]" "sectorIdOffset c = 0" "length (sectors c) = 2"
    and m: "model c = example_model ''a'' 2"
    by blast
  let ?p = "weight_fn (-1) (-1) / (weight_fn 5 (1 / 2) + weight_fn (-1) (-1))"
  have "weight_fn 5 (1 / 2) + weight_fn (-1) (-1) < 0"
    using weight_fn_far weight_fn_corner_upper by linarith
  then have "?p < 0" using weight_fn_corner by (simp add: divide_pos_neg)
  with tall_ranked [OF a] m r show ?thesis by auto
qed

text \<open>
  Claim C10 says that a sector has an entry in the result exactly when a pixel of the
  current picture decodes to its id. On the same target and picture, row 3 decodes to the
  tracked id 1, its accumulated weight is negative, and the result has an entry for
  sector 0 only.
\<close>

theorem tall_target_hit_sector_missing:
  "\<exists>s res. run (constructor (Some (1, 4))) [SetModels [example_model ''a'' 2]] = Inr s
     \<and> array_get (sectorVisibilityBuffer (decode_frame s tall_frame)) 1 =
         Some \<lparr> sectorIdWithOffset = 1, weight = weight_fn 5 (1 / 2), distance = 9 \<rparr>
     \<and> tracked_id s 1
     \<and> fst (orderSectorsByVisibility s tall_frame) = Inr res
     \<and> map sectorId res = [0]"
proof -
  from tall_state obtain s c where
    r: "run (constructor (Some (1, 4))) [SetModels [example_model ''a'' 2]] = Inr s"
    and a: "sectorVisibilityBuffer s = []" "rtBuffer s = []"
      "renderTarget s = \<lparr> width = 1, height = 4, target_dispose_calls = 0 \<rparr>"
      "containers s = [(''a'', c)]" "sectorIdOffset c = 0" "length (sectors c) = 2"
    by blast
  have t: "tracked_id s 1" using a(4,5,6) by (simp add: tracked_id_def in_range_def)
  have g: "array_get (sectorVisibilityBuffer (decode_frame s tall_frame)) 1 =
         Some \<lparr> sectorIdWithOffset = 1, weight = weight_fn 5 (1 / 2), distance = 9 \<rparr>"
    by (simp add: tall_decoded [OF a(1,2,3)] array_get_def)
  from tall_ranked [OF a] r t g show ?thesis by auto
qed

subsection \<open>The depth of a sector over two queries\<close>

text \<open>
  Claim C3 says that depths seen in earlier calls do not influence the result.
  \<^verbatim>\<open>prepareBuffers\<close> resets the weight of a reused entry and keeps its distance: after a
  query that saw sector 0 at depth 10, a query whose picture shows it at depth 200
  reports depth 10.
\<close>

theorem stale_depth_reported:
  "\<exists>s. run (constructor (Some (1, 1)))
          [SetModels [example_model ''a'' 1], OrderSectorsByVisibility near_frame] = Inr s
     \<and> fst (orderSectorsByVisibility s far_frame) =
         Inr [\<lparr> entry_model = example_model ''a'' 1, sectorId = 0, priority = 1, depth = 10 \<rparr>]
     \<and> unat (far_frame 3) = 200"
proof -
  have nz: "weight_fn (-1) (-1) \<noteq> 0" using weight_fn_corner by simp
  obtain s0 c where r0: "run (constructor (Some (1, 1))) [SetModels [example_model ''a'' 1]] = Inr s0"
    and a: "sectorVisibilityBuffer s0 = []" "rtBuffer s0 = []"
      "renderTarget s0 = \<lparr> width = 1, height = 1, target_dispose_calls = 0 \<rparr>"
      "containers s0 = [(''a'', c)]" "sectorIdOffset c = 0" "length (sectors c) = 1"
      "model c = example_model ''a'' 1"
    by (simp add: eval_defs upt_rec)
  let ?s1 = "decode_frame s0 near_frame"
  have b1: "sectorVisibilityBuffer ?s1 =
      [Some \<lparr> sectorIdWithOffset = 0, weight = weight_fn (-1) (-1), distance = 10 \<rparr>]"
    using a(1,2,3)
    by (simp add: decode_frame_def prepareBuffers_def readRenderTargetPixels_def
      unpackSectorVisibility_def unpack_pixel_def array_get_def array_set_def Let_def upt_rec
      near_frame_def)
  have l1: "rtBuffer ?s1 = [0, 0, 0, 10]"
    using a(1,2,3)
    by (simp add: decode_frame_def prepareBuffers_def readRenderTargetPixels_def Let_def upt_rec
      near_frame_def)
  have o1: "fst (orderSectorsByVisibility s0 near_frame) =
      Inr [\<lparr> entry_model = example_model ''a'' 1, sectorId = 0, priority = 1, depth = 10 \<rparr>]"
    using weight_fn_corner nz a(4-7)
    by (simp add: orderSectorsByVisibility_def rank_sectors_def b1
        array_elements_def to_prioritized_def findSectorContainer_def decode_frame_fields Let_def)
  have r1: "run (constructor (Some (1, 1)))
          [SetModels [example_model ''a'' 1], OrderSectorsByVisibility near_frame] = Inr ?s1"
  proof -
    have "run s0 [OrderSectorsByVisibility near_frame] = Inr ?s1"
      using o1 by (simp add: orderSectorsByVisibility_def Let_def split: prod.splits sum.splits)
    with r0 show ?thesis by (simp split: sum.splits)
  qed
  have b2: "sectorVisibilityBuffer (decode_frame ?s1 far_frame) =
      [Some \<lparr> sectorIdWithOffset = 0, weight = weight_fn (-1) (-1), distance = 10 \<rparr>]"
    using a(3)
    by (simp add: decode_frame_def [of ?s1] prepareBuffers_def [of ?s1] b1 l1 decode_frame_fields
      readRenderTargetPixels_def
      unpackSectorVisibility_def unpack_pixel_def array_get_def array_set_def Let_def upt_rec
      far_frame_def)
  have o2: "fst (orderSectorsByVisibility ?s1 far_frame) =
      Inr [\<lparr> entry_model = example_model ''a'' 1, sectorId = 0, priority = 1, depth = 10 \<rparr>]"
    using weight_fn_corner nz a(4-7)
    by (simp add: orderSectorsByVisibility_def rank_sectors_def b2
        array_elements_def to_prioritized_def findSectorContainer_def decode_frame_fields Let_def)
  have "unat (far_frame 3) = 200" by (simp add: far_frame_def)
  with r1 o2 show ?thesis by blast
qed

subsection \<open>Disposal\<close>

text \<open>
  Claim C9 says that \<^verbatim>\<open>dispose()\<close> releases the render target, the debug surface and
  the rendering context. After a debug canvas was created, \<^verbatim>\<open>dispose()\<close> has called
  \<^verbatim>\<open>dispose\<close> once on the renderer and once on the debug renderer, and not on the
  render target.
\<close>

theorem dispose_leaves_render_target:
  "\<exists>s. run (constructor None) [CreateDebugCanvas] = Inr s
     \<and> renderer_dispose_calls (renderer (dispose s)) = 1
     \<and> debugRenderer (dispose s) = Some \<lparr> renderer_dispose_calls = 1 \<rparr>
     \<and> target_dispose_calls (renderTarget (dispose s)) = 0"
  by (simp add: constructor_def createDebugCanvas_def dispose_def renderer_dispose_def Let_def)

end
